theory Spec2Isabelle
  imports Main
begin

section \<open>Errors\<close>

text \<open>
  Every \<^verbatim>\<open>raise\<close> of the two source files is a value of \<open>error\<close>.
  \<open>InvalidNamespaceError\<close> carries which of the five checks of
  \<^verbatim>\<open>_validate_namespace\<close> fired; \<open>ValueError\<close> carries which of the two
  \<^verbatim>\<open>raise ValueError\<close> statements of the Postgres store fired. The remaining
  constructors are the exceptions the Python runtime and the collaborators raise
  (an undefined name, an unexpected keyword, \<^verbatim>\<open>[0]\<close> on an empty list, a failed
  statement, a failed connection, a failed embedder call).
\<close>

datatype ns_error =
    EmptyNamespace
  | NonStringLabel
  | PeriodInLabel
  | EmptyLabel
  | ReservedRoot

datatype value_error =
    PipelineWithPool
  | EmbeddingConfigRequired

datatype error =
    InvalidNamespaceError ns_error
  | ValueError value_error
  | NameError string
  | TypeError string
  | IndexError
  | UndefinedTable
  | DatabaseError
  | RuntimeError

section \<open>Item and SearchItem\<close>

text \<open>
  \<^verbatim>\<open>class Item\<close> with its five slots; \<^verbatim>\<open>class SearchItem(Item)\<close> adds
  \<^verbatim>\<open>score\<close>, so it is the record extension. The value type \<open>'v\<close> stands for the
  JSON dictionary and \<open>'d\<close> for \<^verbatim>\<open>datetime\<close>; HOL equality on them stands for
  Python's \<^verbatim>\<open>==\<close>.
\<close>

record ('v, 'd) item =
  item_value :: 'v
  item_key :: string
  item_namespace :: "string list"
  created_at :: 'd
  updated_at :: 'd

record ('v, 'd, 's) search_item = "('v, 'd) item" +
  score :: "'s option"

text \<open>A timestamp argument of \<^verbatim>\<open>Item.__init__\<close>: an ISO string or a datetime.\<close>

datatype 'd ts_arg = TsStr string | TsDatetime 'd

text \<open>
  \<^verbatim>\<open>datetime.fromisoformat(x)\<close>: the standard library's parser \<open>fromiso\<close> on a
  \<^verbatim>\<open>str\<close>, \<^verbatim>\<open>TypeError\<close> on anything else.
\<close>

definition fromisoformat :: "(string \<Rightarrow> error + 'd) \<Rightarrow> 'd ts_arg \<Rightarrow> error + 'd" where
  "fromisoformat fromiso x =
     (case x of
        TsStr s \<Rightarrow> fromiso s
      | TsDatetime _ \<Rightarrow> Inl (TypeError ''fromisoformat: argument must be str''))"

text \<open>
  \<^verbatim>\<open>Item.__init__\<close> (lines 42-65). The test of the second conditional
  expression is on \<^verbatim>\<open>updated_at\<close>, its parsed argument is \<^verbatim>\<open>created_at\<close>,
  as in the source.
\<close>

definition Item_init ::
  "(string \<Rightarrow> error + 'd) \<Rightarrow> 'v \<Rightarrow> string \<Rightarrow> string list \<Rightarrow> 'd ts_arg \<Rightarrow> 'd ts_arg
     \<Rightarrow> error + ('v, 'd) item" where
  "Item_init fromiso v k ns created updated =
     (case (case created of
              TsStr _ \<Rightarrow> fromisoformat fromiso created
            | TsDatetime d \<Rightarrow> Inr d) of
        Inl e \<Rightarrow> Inl e
      | Inr c \<Rightarrow>
          (case (case updated of
                   TsStr _ \<Rightarrow> fromisoformat fromiso created
                 | TsDatetime d \<Rightarrow> Inr d) of
             Inl e \<Rightarrow> Inl e
           | Inr u \<Rightarrow>
               Inr \<lparr>item_value = v, item_key = k, item_namespace = ns,
                    created_at = c, updated_at = u\<rparr>))"

text \<open>The right-hand operand of \<^verbatim>\<open>==\<close>: an Item, a SearchItem, or any other object.\<close>

datatype ('v, 'd, 's) pyobj =
    ObjItem "('v, 'd) item"
  | ObjSearchItem "('v, 'd, 's) search_item"
  | ObjOther

text \<open>The five comparisons of \<^verbatim>\<open>Item.__eq__\<close> (lines 70-76), on any subclass.\<close>

definition fields_eq :: "('v, 'd, 'a) item_scheme \<Rightarrow> ('v, 'd, 'b) item_scheme \<Rightarrow> bool" where
  "fields_eq self other \<longleftrightarrow>
     item_value self = item_value other
     \<and> item_key self = item_key other
     \<and> item_namespace self = item_namespace other
     \<and> created_at self = created_at other
     \<and> updated_at self = updated_at other"

definition Item_eq :: "('v, 'd, 'a) item_scheme \<Rightarrow> ('v, 'd, 's) pyobj \<Rightarrow> bool" where
  "Item_eq self other =
     (case other of
        ObjOther \<Rightarrow> False
      | ObjItem b \<Rightarrow> fields_eq self b
      | ObjSearchItem b \<Rightarrow> fields_eq self b)"

text \<open>
  \<^verbatim>\<open>Item.__hash__\<close>: the interpreter's hash of the pair, \<open>hash\<close>, applied to
  \<^verbatim>\<open>(self.namespace, self.key)\<close>.
\<close>

definition Item_hash :: "(string list \<times> string \<Rightarrow> int) \<Rightarrow> ('v, 'd, 'a) item_scheme \<Rightarrow> int" where
  "Item_hash hash self = hash (item_namespace self, item_key self)"

section \<open>Namespace validation\<close>

text \<open>
  A namespace handed to the facade is a tuple whose labels should be strings; a label
  that is not a \<^verbatim>\<open>str\<close> is \<open>NonStr\<close>.
\<close>

datatype label = Str string | NonStr

text \<open>
  The \<^verbatim>\<open>for label in namespace\<close> loop of \<^verbatim>\<open>_validate_namespace\<close>
  (lines 619-632): the type test, then the period test, then the empty test.
\<close>

fun check_labels :: "label list \<Rightarrow> error + unit" where
  "check_labels [] = Inr ()"
| "check_labels (l # ls) =
     (case l of
        NonStr \<Rightarrow> Inl (InvalidNamespaceError NonStringLabel)
      | Str s \<Rightarrow>
          if CHR ''.'' \<in> set s then Inl (InvalidNamespaceError PeriodInLabel)
          else if s = [] then Inl (InvalidNamespaceError EmptyLabel)
          else check_labels ls)"

definition validate_namespace :: "label list \<Rightarrow> error + unit" where
  "validate_namespace ns =
     (if ns = [] then Inl (InvalidNamespaceError EmptyNamespace)
      else case check_labels ns of
        Inl e \<Rightarrow> Inl e
      | Inr _ \<Rightarrow>
          (case ns of
             [] \<Rightarrow> Inl IndexError
           | l # _ \<Rightarrow>
               if l = Str ''langgraph'' then Inl (InvalidNamespaceError ReservedRoot)
               else Inr ()))"

text \<open>The labels the specification calls invalid (section 4.1).\<close>

definition bad_label :: "label \<Rightarrow> bool" where
  "bad_label l = (case l of NonStr \<Rightarrow> True | Str s \<Rightarrow> s = [] \<or> CHR ''.'' \<in> set s)"

section \<open>Operations and the store facade\<close>

text \<open>
  The four \<^verbatim>\<open>NamedTuple\<close> operations (lines 130-257). \<open>'n\<close> is the type of the
  namespace tuple: \<open>label list\<close> where a caller may pass anything, \<open>string list\<close>
  once the labels are known to be strings. \<^verbatim>\<open>PutOp.index\<close> is \<^verbatim>\<open>None\<close>,
  \<^verbatim>\<open>False\<close> or a list of paths.
\<close>

datatype match_type = MatchPrefix | MatchSuffix

type_synonym match_condition = "match_type \<times> string list"

datatype index_arg = IndexFalse | IndexPaths "string list"

datatype ('n, 'v) op =
    GetOp 'n string
  | SearchOp 'n "'v option" int int "string option"
  | PutOp 'n string "'v option" "index_arg option"
  | ListNamespacesOp "match_condition list option" "int option" int int

text \<open>
  \<^verbatim>\<open>BaseStore.batch\<close> and \<^verbatim>\<open>BaseStore.abatch\<close> are abstract: a parameter that
  takes the operations and the state of the store and gives the result list or the
  exception, and the state after the call.
\<close>

type_synonym ('n, 'v, 'r, 'st) batch_fn =
  "('n, 'v) op list \<Rightarrow> 'st \<Rightarrow> (error + 'r list) \<times> 'st"

text \<open>\<^verbatim>\<open>xs[0]\<close>: \<^verbatim>\<open>IndexError\<close> on the empty list.\<close>

definition subscript0 :: "'r list \<Rightarrow> error + 'r" where
  "subscript0 xs = (case xs of [] \<Rightarrow> Inl IndexError | x # _ \<Rightarrow> Inr x)"

text \<open>\<^verbatim>\<open>BaseStore.get\<close> (line 337).\<close>

definition get :: "('n, 'v, 'r, 'st) batch_fn \<Rightarrow> 'n \<Rightarrow> string \<Rightarrow> 'st \<Rightarrow> (error + 'r) \<times> 'st" where
  "get batch namespace key st =
     (case batch [GetOp namespace key] st of
        (Inl e, st') \<Rightarrow> (Inl e, st')
      | (Inr rs, st') \<Rightarrow> (subscript0 rs, st'))"

text \<open>\<^verbatim>\<open>BaseStore.search\<close> (line 361).\<close>

definition search ::
  "('n, 'v, 'r, 'st) batch_fn \<Rightarrow> 'n \<Rightarrow> string option \<Rightarrow> 'v option \<Rightarrow> int \<Rightarrow> int \<Rightarrow> 'st
     \<Rightarrow> (error + 'r) \<times> 'st" where
  "search batch namespace_prefix query filt limit offset st =
     (case batch [SearchOp namespace_prefix filt limit offset query] st of
        (Inl e, st') \<Rightarrow> (Inl e, st')
      | (Inr rs, st') \<Rightarrow> (subscript0 rs, st'))"

text \<open>\<^verbatim>\<open>BaseStore.put\<close> (lines 406-407).\<close>

definition put ::
  "(label list, 'v, 'r, 'st) batch_fn \<Rightarrow> label list \<Rightarrow> string \<Rightarrow> 'v \<Rightarrow> index_arg option \<Rightarrow> 'st
     \<Rightarrow> (error + unit) \<times> 'st" where
  "put batch namespace key v index st =
     (case validate_namespace namespace of
        Inl e \<Rightarrow> (Inl e, st)
      | Inr _ \<Rightarrow>
          (case batch [PutOp namespace key (Some v) index] st of
             (Inl e, st') \<Rightarrow> (Inl e, st')
           | (Inr _, st') \<Rightarrow> (Inr (), st')))"

text \<open>\<^verbatim>\<open>BaseStore.delete\<close> (line 416).\<close>

definition delete :: "('n, 'v, 'r, 'st) batch_fn \<Rightarrow> 'n \<Rightarrow> string \<Rightarrow> 'st \<Rightarrow> (error + unit) \<times> 'st" where
  "delete batch namespace key st =
     (case batch [PutOp namespace key None None] st of
        (Inl e, st') \<Rightarrow> (Inl e, st')
      | (Inr _, st') \<Rightarrow> (Inr (), st'))"

text \<open>
  The list built at lines 455-459 (and 601-605): \<^verbatim>\<open>if prefix:\<close> is false for
  \<^verbatim>\<open>None\<close> and for the empty tuple.
\<close>

definition match_conditions_of :: "string list option \<Rightarrow> string list option \<Rightarrow> match_condition list" where
  "match_conditions_of prefix suffix =
     (case prefix of
        None \<Rightarrow> []
      | Some p \<Rightarrow> if p = [] then [] else [(MatchPrefix, p)])
     @ (case suffix of
        None \<Rightarrow> []
      | Some q \<Rightarrow> if q = [] then [] else [(MatchSuffix, q)])"

text \<open>\<^verbatim>\<open>BaseStore.list_namespaces\<close> (lines 455-467).\<close>

definition list_namespaces ::
  "('n, 'v, 'r, 'st) batch_fn \<Rightarrow> string list option \<Rightarrow> string list option \<Rightarrow> int option
     \<Rightarrow> int \<Rightarrow> int \<Rightarrow> 'st \<Rightarrow> (error + 'r) \<times> 'st" where
  "list_namespaces batch prefix suffix max_depth limit offset st =
     (case batch [ListNamespacesOp (Some (match_conditions_of prefix suffix))
                    max_depth limit offset] st of
        (Inl e, st') \<Rightarrow> (Inl e, st')
      | (Inr rs, st') \<Rightarrow> (subscript0 rs, st'))"

text \<open>The cooperative forms (lines 469-613): the same bodies over \<^verbatim>\<open>abatch\<close>.\<close>

definition aget :: "('n, 'v, 'r, 'st) batch_fn \<Rightarrow> 'n \<Rightarrow> string \<Rightarrow> 'st \<Rightarrow> (error + 'r) \<times> 'st" where
  "aget abatch namespace key st =
     (case abatch [GetOp namespace key] st of
        (Inl e, st') \<Rightarrow> (Inl e, st')
      | (Inr rs, st') \<Rightarrow> (subscript0 rs, st'))"

definition asearch ::
  "('n, 'v, 'r, 'st) batch_fn \<Rightarrow> 'n \<Rightarrow> string option \<Rightarrow> 'v option \<Rightarrow> int \<Rightarrow> int \<Rightarrow> 'st
     \<Rightarrow> (error + 'r) \<times> 'st" where
  "asearch abatch namespace_prefix query filt limit offset st =
     (case abatch [SearchOp namespace_prefix filt limit offset query] st of
        (Inl e, st') \<Rightarrow> (Inl e, st')
      | (Inr rs, st') \<Rightarrow> (subscript0 rs, st'))"

definition aput ::
  "(label list, 'v, 'r, 'st) batch_fn \<Rightarrow> label list \<Rightarrow> string \<Rightarrow> 'v \<Rightarrow> index_arg option \<Rightarrow> 'st
     \<Rightarrow> (error + unit) \<times> 'st" where
  "aput abatch namespace key v index st =
     (case validate_namespace namespace of
        Inl e \<Rightarrow> (Inl e, st)
      | Inr _ \<Rightarrow>
          (case abatch [PutOp namespace key (Some v) index] st of
             (Inl e, st') \<Rightarrow> (Inl e, st')
           | (Inr _, st') \<Rightarrow> (Inr (), st')))"

definition adelete :: "('n, 'v, 'r, 'st) batch_fn \<Rightarrow> 'n \<Rightarrow> string \<Rightarrow> 'st \<Rightarrow> (error + unit) \<times> 'st" where
  "adelete abatch namespace key st =
     (case abatch [PutOp namespace key None None] st of
        (Inl e, st') \<Rightarrow> (Inl e, st')
      | (Inr _, st') \<Rightarrow> (Inr (), st'))"

definition alist_namespaces ::
  "('n, 'v, 'r, 'st) batch_fn \<Rightarrow> string list option \<Rightarrow> string list option \<Rightarrow> int option
     \<Rightarrow> int \<Rightarrow> int \<Rightarrow> 'st \<Rightarrow> (error + 'r) \<times> 'st" where
  "alist_namespaces abatch prefix suffix max_depth limit offset st =
     (case abatch [ListNamespacesOp (Some (match_conditions_of prefix suffix))
                     max_depth limit offset] st of
        (Inl e, st') \<Rightarrow> (Inl e, st')
      | (Inr rs, st') \<Rightarrow> (subscript0 rs, st'))"

text \<open>
  The specification's words for a facade helper (section 4.7): construct a one-element
  operation list, run the batch, return \<^verbatim>\<open>result[0]\<close>. The helpers that return
  nothing run the same batch and drop the list.
\<close>

definition singleton_batch ::
  "('n, 'v, 'r, 'st) batch_fn \<Rightarrow> ('n, 'v) op \<Rightarrow> 'st \<Rightarrow> (error + 'r) \<times> 'st" where
  "singleton_batch batch op st =
     (let (res, st') = batch [op] st
      in ((case res of Inl e \<Rightarrow> Inl e | Inr rs \<Rightarrow> subscript0 rs), st'))"

definition singleton_batch_unit ::
  "('n, 'v, 'r, 'st) batch_fn \<Rightarrow> ('n, 'v) op \<Rightarrow> 'st \<Rightarrow> (error + unit) \<times> 'st" where
  "singleton_batch_unit batch op st =
     (let (res, st') = batch [op] st
      in ((case res of Inl e \<Rightarrow> Inl e | Inr rs \<Rightarrow> Inr ()), st'))"

section \<open>Constructing the Postgres store\<close>

text \<open>
  The values the constructor's names can hold. Python is untyped, so one type covers
  every argument: \<^verbatim>\<open>None\<close>, a connection, a connection pool, a pipeline, a
  callable, an embedding configuration \<open>'c\<close>, a module or class of the file's globals.
\<close>

datatype 'c pyval =
    PyNone
  | PyConnection
  | PyConnectionPool
  | PyPipeline
  | PyCallable
  | PyConfig 'c
  | PyGlobal

text \<open>
  What the constructor needs from outside the two files: the names of the
  \<^verbatim>\<open>builtins\<close> module, whether one of the calls of lines 61-67
  (\<^verbatim>\<open>super().__init__()\<close>, \<^verbatim>\<open>asyncio.Lock()\<close>,
  \<^verbatim>\<open>asyncio.get_running_loop()\<close>, \<^verbatim>\<open>Capabilities().has_pipeline()\<close>) raises,
  whether opening the connection or the pool raises, and \<^verbatim>\<open>_ensure_index_config\<close>,
  which is imported from a module that is not among the sources.
\<close>

record 'c runtime =
  builtins :: "string list"
  runtime_failure :: "error option"
  connect_failure :: "error option"
  ensure_index_config :: "'c pyval \<Rightarrow> error + ('c pyval \<times> 'c pyval)"

text \<open>The instance attributes \<^verbatim>\<open>__init__\<close> assigns.\<close>

record 'c store_attrs =
  attr_deserializer :: "'c pyval"
  attr_conn :: "'c pyval"
  attr_pipe :: "'c pyval"
  attr_index_config :: "'c pyval"
  attr_embeddings :: "'c pyval"

text \<open>
  The parameters of \<^verbatim>\<open>__init__\<close> after \<^verbatim>\<open>self\<close> (lines 47-56):
  \<^verbatim>\<open>conn\<close> is positional or keyword and required, the three after \<^verbatim>\<open>*\<close> are
  keyword-only with default \<^verbatim>\<open>None\<close>.
\<close>

definition init_keywords :: "string list" where
  "init_keywords = [''conn'', ''pipe'', ''deserializer'', ''index'']"

text \<open>
  Python's binding of a call's arguments to that signature: more than one positional
  argument, a keyword the signature does not have, \<^verbatim>\<open>conn\<close> given twice or not at
  all is a \<^verbatim>\<open>TypeError\<close>, raised before the body runs. The result is the local
  scope of the body.
\<close>

definition keyword_or_None :: "(string \<times> 'c pyval) list \<Rightarrow> string \<Rightarrow> 'c pyval" where
  "keyword_or_None kwargs name = (case map_of kwargs name of None \<Rightarrow> PyNone | Some v \<Rightarrow> v)"

definition bind_init ::
  "'c pyval list \<Rightarrow> (string \<times> 'c pyval) list \<Rightarrow> error + (string \<times> 'c pyval) list" where
  "bind_init args kwargs =
     (if length args > 1 then Inl (TypeError ''too many positional arguments'')
      else case find (\<lambda>(name, _). name \<notin> set init_keywords) kwargs of
        Some (name, _) \<Rightarrow> Inl (TypeError (''unexpected keyword argument '' @ name))
      | None \<Rightarrow>
          (case (args, map_of kwargs ''conn'') of
             ([], None) \<Rightarrow> Inl (TypeError ''missing required argument conn'')
           | (_ # _, Some _) \<Rightarrow> Inl (TypeError ''multiple values for argument conn'')
           | (c # _, None) \<Rightarrow>
               Inr [(''self'', PyGlobal), (''conn'', c),
                    (''pipe'', keyword_or_None kwargs ''pipe''),
                    (''deserializer'', keyword_or_None kwargs ''deserializer''),
                    (''index'', keyword_or_None kwargs ''index'')]
           | ([], Some c) \<Rightarrow>
               Inr [(''self'', PyGlobal), (''conn'', c),
                    (''pipe'', keyword_or_None kwargs ''pipe''),
                    (''deserializer'', keyword_or_None kwargs ''deserializer''),
                    (''index'', keyword_or_None kwargs ''index'')]))"

text \<open>
  The global names of the module: its imports (lines 1-33), \<^verbatim>\<open>logger\<close> and the
  class itself.
\<close>

definition module_globals :: "string list" where
  "module_globals =
     [''asyncio'', ''logging'', ''AsyncIterator'', ''Iterable'', ''Sequence'',
      ''asynccontextmanager'', ''Any'', ''Callable'', ''Optional'', ''Union'', ''cast'',
      ''orjson'', ''AsyncConnection'', ''AsyncCursor'', ''AsyncPipeline'', ''Capabilities'',
      ''UndefinedTable'', ''DictRow'', ''dict_row'', ''AsyncConnectionPool'', ''_ainternal'',
      ''GetOp'', ''ListNamespacesOp'', ''Op'', ''PutOp'', ''Result'', ''SearchOp'',
      ''AsyncBatchedBaseStore'', ''BasePostgresStore'', ''PoolConfig'',
      ''PostgresEmbeddingConfig'', ''Row'', ''_decode_ns_bytes'', ''_ensure_index_config'',
      ''_group_ops'', ''_row_to_item'', ''_row_to_search_item'', ''logger'',
      ''AsyncPostgresStore'']"

text \<open>
  Reading a name in the body of a function: the local scope, then the module's globals,
  then the builtins; \<^verbatim>\<open>NameError\<close> when none has it.
\<close>

definition load_name :: "'c runtime \<Rightarrow> (string \<times> 'c pyval) list \<Rightarrow> string \<Rightarrow> error + 'c pyval" where
  "load_name rt locals name =
     (case map_of locals name of
        Some v \<Rightarrow> Inr v
      | None \<Rightarrow>
          if name \<in> set module_globals \<or> name \<in> set (builtins rt) then Inr PyGlobal
          else Inl (NameError name))"

text \<open>\<^verbatim>\<open>if x:\<close> on these values: only \<^verbatim>\<open>None\<close> is false.\<close>

definition truthy :: "'c pyval \<Rightarrow> bool" where
  "truthy v \<longleftrightarrow> v \<noteq> PyNone"

text \<open>
  The body of \<^verbatim>\<open>__init__\<close> (lines 57-75). Line 68 reads the name
  \<^verbatim>\<open>embedding\<close>; the parameter is called \<^verbatim>\<open>index\<close>.
\<close>

definition init_body :: "'c runtime \<Rightarrow> (string \<times> 'c pyval) list \<Rightarrow> error + 'c store_attrs" where
  "init_body rt locals =
     (case load_name rt locals ''conn'' of
        Inl e \<Rightarrow> Inl e
      | Inr conn \<Rightarrow>
     (case load_name rt locals ''pipe'' of
        Inl e \<Rightarrow> Inl e
      | Inr pipe \<Rightarrow>
          if conn = PyConnectionPool \<and> pipe \<noteq> PyNone
          then Inl (ValueError PipelineWithPool)
          else
     (case runtime_failure rt of
        Some e \<Rightarrow> Inl e
      | None \<Rightarrow>
     (case load_name rt locals ''deserializer'' of
        Inl e \<Rightarrow> Inl e
      | Inr deserializer \<Rightarrow>
     (case load_name rt locals ''embedding'' of
        Inl e \<Rightarrow> Inl e
      | Inr index_config \<Rightarrow>
          if truthy index_config
          then (case ensure_index_config rt index_config of
                  Inl e \<Rightarrow> Inl e
                | Inr (emb, cfg) \<Rightarrow>
                    Inr \<lparr>attr_deserializer = deserializer, attr_conn = conn,
                         attr_pipe = pipe, attr_index_config = cfg,
                         attr_embeddings = emb\<rparr>)
          else Inr \<lparr>attr_deserializer = deserializer, attr_conn = conn,
                    attr_pipe = pipe, attr_index_config = index_config,
                    attr_embeddings = PyNone\<rparr>)))))"

text \<open>\<^verbatim>\<open>AsyncPostgresStore(*args, **kwargs)\<close>: bind the arguments, run the body.\<close>

definition AsyncPostgresStore_init ::
  "'c runtime \<Rightarrow> 'c pyval list \<Rightarrow> (string \<times> 'c pyval) list \<Rightarrow> error + 'c store_attrs" where
  "AsyncPostgresStore_init rt args kwargs =
     (case bind_init args kwargs of
        Inl e \<Rightarrow> Inl e
      | Inr locals \<Rightarrow> init_body rt locals)"

text \<open>
  \<^verbatim>\<open>from_conn_string\<close> (lines 116-142), up to the store it yields: a pool when
  \<^verbatim>\<open>pool_config\<close> is given, otherwise one connection, with its pipeline when
  \<^verbatim>\<open>pipeline\<close> is set. Each branch calls the class with the keyword
  \<^verbatim>\<open>embedding\<close>.
\<close>

definition from_conn_string ::
  "'c runtime \<Rightarrow> string \<Rightarrow> bool \<Rightarrow> 'p option \<Rightarrow> 'c pyval \<Rightarrow> error + 'c store_attrs" where
  "from_conn_string rt conn_string pipeline pool_config embedding =
     (case pool_config of
        Some _ \<Rightarrow>
          (case connect_failure rt of
             Some e \<Rightarrow> Inl e
           | None \<Rightarrow>
               AsyncPostgresStore_init rt []
                 [(''conn'', PyConnectionPool), (''embedding'', embedding)])
      | None \<Rightarrow>
          (case connect_failure rt of
             Some e \<Rightarrow> Inl e
           | None \<Rightarrow>
               if pipeline
               then AsyncPostgresStore_init rt []
                      [(''conn'', PyConnection), (''pipe'', PyPipeline),
                       (''embedding'', embedding)]
               else AsyncPostgresStore_init rt []
                      [(''conn'', PyConnection), (''embedding'', embedding)]))"

section \<open>The migration runner\<close>

text \<open>
  An entry of \<^verbatim>\<open>MIGRATIONS\<close> as \<^verbatim>\<open>setup\<close> reads it (lines 174-186): a
  literal statement, or a structured entry with \<^verbatim>\<open>sql\<close>, an optional
  \<^verbatim>\<open>condition\<close> on the store and optional \<^verbatim>\<open>params\<close> whose values are
  either plain or callables of the store. \<open>'st\<close> is the store the callables read.
\<close>

datatype 'st param_value = ParamPlain string | ParamCallable "'st \<Rightarrow> string"

datatype 'st migration =
    LiteralSql string
  | Migration string "('st \<Rightarrow> bool) option" "(string \<times> 'st param_value) list option"

text \<open>
  The database as the runner sees it: the rows of \<^verbatim>\<open>store_migrations\<close>
  (\<open>None\<close> while the table does not exist) and the rest of the schema, which only the
  migration statements touch.
\<close>

record 'db migration_db =
  versions :: "int list option"
  schema :: 'db

text \<open>
  What the runner needs from outside: Python's \<^verbatim>\<open>sql % params\<close> and the effect
  of one migration statement on the schema. Both can raise.
\<close>

record 'db sql_runtime =
  percent_format :: "string \<Rightarrow> (string \<times> string) list \<Rightarrow> error + string"
  run_sql :: "string \<Rightarrow> 'db \<Rightarrow> error + 'db"

text \<open>\<^verbatim>\<open>SELECT v FROM store_migrations ORDER BY v DESC LIMIT 1\<close> on the rows.\<close>

fun select_highest :: "int list \<Rightarrow> int option" where
  "select_highest [] = None"
| "select_highest (v # vs) =
     (case select_highest vs of None \<Rightarrow> Some v | Some w \<Rightarrow> Some (max v w))"

text \<open>
  \<^verbatim>\<open>xs[i:]\<close>: a negative start counts from the end, and both ends are clamped.
\<close>

definition py_slice_from :: "'a list \<Rightarrow> int \<Rightarrow> 'a list" where
  "py_slice_from xs i =
     (if i < 0 then drop (nat (max (int (length xs) + i) 0)) xs else drop (nat i) xs)"

text \<open>\<^verbatim>\<open>enumerate(xs, start=s)\<close>.\<close>

fun enumerate_from :: "int \<Rightarrow> 'a list \<Rightarrow> (int \<times> 'a) list" where
  "enumerate_from s [] = []"
| "enumerate_from s (x # xs) = (s, x) # enumerate_from (s + 1) xs"

text \<open>
  Lines 174-186 for one entry: \<open>None\<close> is the \<^verbatim>\<open>continue\<close> of line 178,
  otherwise the statement to execute, or the exception of the formatting.
\<close>

definition migration_sql :: "'db sql_runtime \<Rightarrow> 'st \<Rightarrow> 'st migration \<Rightarrow> (error + string) option" where
  "migration_sql rt self m =
     (case m of
        LiteralSql sql \<Rightarrow> Some (Inr sql)
      | Migration sql condition params \<Rightarrow>
          (case condition of
             Some c \<Rightarrow>
               if \<not> c self then None
               else (case params of
                       None \<Rightarrow> Some (Inr sql)
                     | Some ps \<Rightarrow>
                         if ps = [] then Some (Inr sql)
                         else Some (percent_format rt sql
                                (map (\<lambda>(k, v). (k, case v of ParamPlain t \<Rightarrow> t
                                                        | ParamCallable f \<Rightarrow> f self)) ps)))
           | None \<Rightarrow>
               (case params of
                  None \<Rightarrow> Some (Inr sql)
                | Some ps \<Rightarrow>
                    if ps = [] then Some (Inr sql)
                    else Some (percent_format rt sql
                           (map (\<lambda>(k, v). (k, case v of ParamPlain t \<Rightarrow> t
                                                   | ParamCallable f \<Rightarrow> f self)) ps)))))"

text \<open>
  \<^verbatim>\<open>INSERT INTO store_migrations (v) VALUES (%s)\<close>: the column is the primary
  key, so a version already there is refused.
\<close>

definition insert_version :: "int \<Rightarrow> 'db migration_db \<Rightarrow> error + 'db migration_db" where
  "insert_version v db =
     (case versions db of
        None \<Rightarrow> Inl UndefinedTable
      | Some vs \<Rightarrow>
          if v \<in> set vs then Inl DatabaseError
          else Inr (db\<lparr>versions := Some (vs @ [v])\<rparr>))"

text \<open>
  The loop of lines 171-189 over the enumerated entries. Beside the database it returns
  the migrations it executed, each with the index it recorded, in order.
\<close>

fun run_migrations ::
  "'db sql_runtime \<Rightarrow> 'st \<Rightarrow> (int \<times> 'st migration) list \<Rightarrow> 'db migration_db
     \<Rightarrow> error + ('db migration_db \<times> (int \<times> string) list)" where
  "run_migrations rt self [] db = Inr (db, [])"
| "run_migrations rt self ((v, m) # rest) db =
     (case migration_sql rt self m of
        None \<Rightarrow> run_migrations rt self rest db
      | Some (Inl e) \<Rightarrow> Inl e
      | Some (Inr sql) \<Rightarrow>
          (case run_sql rt sql (schema db) of
             Inl e \<Rightarrow> Inl e
           | Inr sch \<Rightarrow>
               (case insert_version v (db\<lparr>schema := sch\<rparr>) of
                  Inl e \<Rightarrow> Inl e
                | Inr db' \<Rightarrow>
                    (case run_migrations rt self rest db' of
                       Inl e \<Rightarrow> Inl e
                     | Inr (db'', applied) \<Rightarrow> Inr (db'', (v, sql) # applied)))))"

text \<open>
  Lines 152-169: the version read from the table, \<open>-1\<close> when it has no row, and
  \<open>-1\<close> with the table created when the \<^verbatim>\<open>SELECT\<close> raises
  \<^verbatim>\<open>UndefinedTable\<close>.
\<close>

definition read_version :: "'db migration_db \<Rightarrow> int \<times> 'db migration_db" where
  "read_version db =
     (case versions db of
        None \<Rightarrow> (- 1, db\<lparr>versions := Some []\<rparr>)
      | Some vs \<Rightarrow>
          (case select_highest vs of
             None \<Rightarrow> (- 1, db)
           | Some v \<Rightarrow> (v, db)))"

text \<open>
  \<^verbatim>\<open>AsyncPostgresStore.setup\<close> (lines 151-189). \<^verbatim>\<open>MIGRATIONS\<close> is an
  attribute of the base class \<^verbatim>\<open>BasePostgresStore\<close>, which is not among the
  sources: a parameter. (The method's own name is a keyword of Isabelle.)
\<close>

definition store_setup ::
  "'db sql_runtime \<Rightarrow> 'st \<Rightarrow> 'st migration list \<Rightarrow> 'db migration_db
     \<Rightarrow> error + ('db migration_db \<times> (int \<times> string) list)" where
  "store_setup rt self MIGRATIONS db =
     (case read_version db of
        (version, db1) \<Rightarrow>
          run_migrations rt self
            (enumerate_from (version + 1) (py_slice_from MIGRATIONS (version + 1))) db1)"

text \<open>Whether the loop reaches the statement of an entry: line 177 does not skip it.\<close>

definition not_skipped :: "'st \<Rightarrow> 'st migration \<Rightarrow> bool" where
  "not_skipped self m =
     (case m of
        LiteralSql _ \<Rightarrow> True
      | Migration _ condition _ \<Rightarrow> (case condition of None \<Rightarrow> True | Some c \<Rightarrow> c self))"

section \<open>The batched executor: data\<close>

text \<open>
  Inside the executor a namespace is a tuple of strings. A statement is the pair
  \<^verbatim>\<open>(query, params)\<close> the planner returns and \<^verbatim>\<open>cur.execute\<close> receives:
  the query is one of the statement texts of the planner, the parameters are a list the
  executor may write into (line 293) or build (lines 269-273).
\<close>

type_synonym namespace = "string list"

datatype ('v, 'vec) param =
    PNone
  | PStr string
  | PStrs "string list"
  | PInt int
  | PJson 'v
  | PVector 'vec
  | PConds "match_condition list"

datatype sql =
    SqlSelectKeys
  | SqlSearchScan
  | SqlSearchVector
  | SqlListNamespaces
  | SqlDeleteKeys
  | SqlUpsertItems
  | SqlUpsertVectors

type_synonym ('v, 'vec) statement = "sql \<times> ('v, 'vec) param list"

text \<open>
  Modelled from the spec: the persistent state layout of section 6. A row of the table
  \<^verbatim>\<open>store(prefix, key, value, created_at, updated_at)\<close>; a row a search
  statement returns has the score beside these columns. The other tables are \<open>'x\<close>.
\<close>

record ('v, 'd) store_row =
  row_prefix :: string
  row_key :: string
  row_value :: 'v
  row_created_at :: 'd
  row_updated_at :: 'd

record ('v, 'd, 's) search_row = "('v, 'd) store_row" +
  row_score :: "'s option"

record ('v, 'd, 'x) database =
  store_table :: "('v, 'd) store_row list"
  other_tables :: 'x

text \<open>
  The cursor of \<^verbatim>\<open>_execute_batch\<close>: the database it works on and the statements
  dispatched through it so far, in the order of the calls of \<^verbatim>\<open>cur.execute\<close>.
\<close>

record ('v, 'd, 'vec, 'x) cursor =
  cur_db :: "('v, 'd, 'x) database"
  dispatched :: "('v, 'vec) statement list"

text \<open>
  What the executor needs from outside the two files. The database server: whether a
  statement fails, the rows a search statement and a namespace listing return, the
  effect of a writing statement. The text extraction of the module
  \<^verbatim>\<open>langgraph.store.base.embed\<close>, which is not among the sources: the
  (path name, text) pairs to embed for an item, given the index configuration and the
  \<^verbatim>\<open>index\<close> argument of the operation.
\<close>

record ('v, 'd, 's, 'vec, 'cfg, 'x) backend =
  fails :: "('v, 'd, 'x) database \<Rightarrow> ('v, 'vec) statement \<Rightarrow> bool"
  search_rows :: "('v, 'd, 'x) database \<Rightarrow> ('v, 'vec) statement \<Rightarrow> ('v, 'd, 's) search_row list"
  namespace_rows :: "('v, 'd, 'x) database \<Rightarrow> ('v, 'vec) statement \<Rightarrow> string list"
  write_effect :: "('v, 'd, 'x) database \<Rightarrow> ('v, 'vec) statement \<Rightarrow> ('v, 'd, 'x) database"
  index_texts :: "'cfg \<Rightarrow> namespace \<Rightarrow> string \<Rightarrow> 'v \<Rightarrow> index_arg option \<Rightarrow> (string \<times> string) list"

text \<open>
  The attributes of the store the executor reads: \<^verbatim>\<open>self.embeddings\<close> and
  \<^verbatim>\<open>self.index_config\<close>. An embedder is given by the vector it computes for a
  text.
\<close>

record ('vec, 'cfg) pg_store =
  embeddings :: "(string \<Rightarrow> 'vec) option"
  index_config :: "'cfg option"

text \<open>
  Modelled from the spec: the embedding adapter is not among the sources; by section 4.2
  \<^verbatim>\<open>aembed_documents\<close> returns as many vectors as it is given texts, in the
  same order.
\<close>

definition aembed_documents :: "(string \<Rightarrow> 'vec) \<Rightarrow> string list \<Rightarrow> 'vec list" where
  "aembed_documents embedder texts = map embedder texts"

text \<open>\<^verbatim>\<open>Result\<close> (line 261).\<close>

datatype ('v, 'd, 's) result =
    RNone
  | RItem "('v, 'd) item"
  | RSearchItems "('v, 'd, 's) search_item list"
  | RNamespaces "namespace list"

text \<open>The four groups of a batch, each operation with its index in the input.\<close>

type_synonym get_op = "namespace \<times> string"
type_synonym 'v search_op = "namespace \<times> 'v option \<times> int \<times> int \<times> string option"
type_synonym 'v put_op = "namespace \<times> string \<times> 'v option \<times> index_arg option"
type_synonym list_op = "match_condition list option \<times> int option \<times> int \<times> int"

record 'v grouped_ops =
  get_group :: "(nat \<times> get_op) list option"
  search_group :: "(nat \<times> 'v search_op) list option"
  list_group :: "(nat \<times> list_op) list option"
  put_group :: "(nat \<times> 'v put_op) list option"

section \<open>The batched executor: helpers that are not among the sources\<close>

text \<open>
  Modelled from the spec: \<^verbatim>\<open>_group_ops\<close> of
  \<^verbatim>\<open>langgraph.store.postgres.base\<close> is missing; section 4.4 has it return the
  operations by kind, each with its index, input order preserved within a group, and the
  total. A kind is a key of the mapping when the batch has an operation of it.
\<close>

fun get_ops_of :: "nat \<Rightarrow> (namespace, 'v) op list \<Rightarrow> (nat \<times> get_op) list" where
  "get_ops_of i [] = []"
| "get_ops_of i (GetOp ns k # ops) = (i, (ns, k)) # get_ops_of (Suc i) ops"
| "get_ops_of i (_ # ops) = get_ops_of (Suc i) ops"

fun search_ops_of :: "nat \<Rightarrow> (namespace, 'v) op list \<Rightarrow> (nat \<times> 'v search_op) list" where
  "search_ops_of i [] = []"
| "search_ops_of i (SearchOp ns f lim off q # ops) =
     (i, (ns, f, lim, off, q)) # search_ops_of (Suc i) ops"
| "search_ops_of i (_ # ops) = search_ops_of (Suc i) ops"

fun list_ops_of :: "nat \<Rightarrow> (namespace, 'v) op list \<Rightarrow> (nat \<times> list_op) list" where
  "list_ops_of i [] = []"
| "list_ops_of i (ListNamespacesOp mc d lim off # ops) =
     (i, (mc, d, lim, off)) # list_ops_of (Suc i) ops"
| "list_ops_of i (_ # ops) = list_ops_of (Suc i) ops"

fun put_ops_of :: "nat \<Rightarrow> (namespace, 'v) op list \<Rightarrow> (nat \<times> 'v put_op) list" where
  "put_ops_of i [] = []"
| "put_ops_of i (PutOp ns k v ix # ops) = (i, (ns, k, v, ix)) # put_ops_of (Suc i) ops"
| "put_ops_of i (_ # ops) = put_ops_of (Suc i) ops"

definition group_key :: "'a list \<Rightarrow> 'a list option" where
  "group_key g = (if g = [] then None else Some g)"

definition group_ops :: "(namespace, 'v) op list \<Rightarrow> 'v grouped_ops \<times> nat" where
  "group_ops ops =
     (\<lparr>get_group = group_key (get_ops_of 0 ops),
       search_group = group_key (search_ops_of 0 ops),
       list_group = group_key (list_ops_of 0 ops),
       put_group = group_key (put_ops_of 0 ops)\<rparr>,
      length ops)"

text \<open>
  Modelled from the spec: the wire convention of section 6. A namespace is joined with
  periods on persistence and split at them on read (\<^verbatim>\<open>_decode_ns_bytes\<close>).
\<close>

fun namespace_to_text :: "namespace \<Rightarrow> string" where
  "namespace_to_text [] = []"
| "namespace_to_text [l] = l"
| "namespace_to_text (l # ls) = l @ ''.'' @ namespace_to_text ls"

fun split_periods :: "string \<Rightarrow> string \<Rightarrow> string list" where
  "split_periods acc [] = [rev acc]"
| "split_periods acc (c # cs) =
     (if c = CHR ''.'' then rev acc # split_periods [] cs else split_periods (c # acc) cs)"

definition decode_ns_bytes :: "string \<Rightarrow> namespace" where
  "decode_ns_bytes t = split_periods [] t"

text \<open>
  Modelled from the spec: \<^verbatim>\<open>_row_to_item\<close> and \<^verbatim>\<open>_row_to_search_item\<close>
  are missing; by section 3 an Item carries the namespace it is asked under and the
  key, value and timestamps of its row, a SearchItem the score too.
\<close>

definition row_to_item :: "namespace \<Rightarrow> ('v, 'd, 'a) store_row_scheme \<Rightarrow> ('v, 'd) item" where
  "row_to_item ns r =
     \<lparr>item_value = row_value r, item_key = row_key r, item_namespace = ns,
      created_at = row_created_at r, updated_at = row_updated_at r\<rparr>"

definition row_to_search_item :: "namespace \<Rightarrow> ('v, 'd, 's) search_row \<Rightarrow> ('v, 'd, 's) search_item" where
  "row_to_search_item ns r =
     \<lparr>item_value = row_value r, item_key = row_key r, item_namespace = ns,
      created_at = row_created_at r, updated_at = row_updated_at r, score = row_score r\<rparr>"

text \<open>
  Modelled from the spec: the Get plan of section 4.5
  (\<^verbatim>\<open>_get_batch_GET_ops_queries\<close> is missing). The operations are partitioned by
  namespace; each part is one statement selecting all its keys under the encoded
  namespace, returned with the namespace and the (index, key) pairs of the part.
\<close>

definition get_batch_GET_ops_queries ::
  "(nat \<times> get_op) list
     \<Rightarrow> (('v, 'vec) statement \<times> namespace \<times> (nat \<times> string) list) list" where
  "get_batch_GET_ops_queries get_ops =
     map (\<lambda>ns.
            let items = map (\<lambda>(idx, (_, key)). (idx, key))
                          (filter (\<lambda>(_, (ns', _)). ns' = ns) get_ops)
            in ((SqlSelectKeys, [PStr (namespace_to_text ns), PStrs (map snd items)]),
                ns, items))
         (remdups (map (\<lambda>(_, (ns, _)). ns) get_ops))"

text \<open>
  Modelled from the spec: the Search plan of section 4.5
  (\<^verbatim>\<open>_prepare_batch_search_queries\<close> is missing). One statement per operation:
  the hybrid statement, its first parameter the place of the query vector, when the
  operation has a query and embeddings are configured, the filtered scan otherwise. The
  embedding requests are the positions of the hybrid statements with their query texts.
\<close>

definition filter_param :: "'v option \<Rightarrow> ('v, 'vec) param" where
  "filter_param f = (case f of None \<Rightarrow> PNone | Some j \<Rightarrow> PJson j)"

definition search_query :: "('vec, 'cfg) pg_store \<Rightarrow> 'v search_op \<Rightarrow> ('v, 'vec) statement" where
  "search_query st op =
     (case op of (ns, f, lim, off, q) \<Rightarrow>
        if q \<noteq> None \<and> embeddings st \<noteq> None
        then (SqlSearchVector,
              [PNone, PStr (namespace_to_text ns), filter_param f, PInt lim, PInt off])
        else (SqlSearchScan,
              [PStr (namespace_to_text ns), filter_param f, PInt lim, PInt off]))"

fun search_embedding_requests ::
  "('vec, 'cfg) pg_store \<Rightarrow> nat \<Rightarrow> (nat \<times> 'v search_op) list \<Rightarrow> (nat \<times> string) list" where
  "search_embedding_requests st i [] = []"
| "search_embedding_requests st i ((_, (ns, f, lim, off, q)) # rest) =
     (case q of
        Some text \<Rightarrow>
          if embeddings st \<noteq> None
          then (i, text) # search_embedding_requests st (Suc i) rest
          else search_embedding_requests st (Suc i) rest
      | None \<Rightarrow> search_embedding_requests st (Suc i) rest)"

definition prepare_batch_search_queries ::
  "('vec, 'cfg) pg_store \<Rightarrow> (nat \<times> 'v search_op) list
     \<Rightarrow> ('v, 'vec) statement list \<times> (nat \<times> string) list" where
  "prepare_batch_search_queries st search_ops =
     (map (\<lambda>(_, op). search_query st op) search_ops,
      search_embedding_requests st 0 search_ops)"

text \<open>
  Modelled from the spec: the ListNamespaces plan of section 4.5
  (\<^verbatim>\<open>_get_batch_list_namespaces_queries\<close> is missing): one statement per
  operation, carrying its match conditions, depth, limit and offset.
\<close>

definition list_namespaces_query :: "list_op \<Rightarrow> ('v, 'vec) statement" where
  "list_namespaces_query op =
     (case op of (mc, d, lim, off) \<Rightarrow>
        (SqlListNamespaces,
         [(case mc of None \<Rightarrow> PNone | Some cs \<Rightarrow> PConds cs),
          (case d of None \<Rightarrow> PNone | Some n \<Rightarrow> PInt n),
          PInt lim, PInt off]))"

definition get_batch_list_namespaces_queries ::
  "(nat \<times> list_op) list \<Rightarrow> ('v, 'vec) statement list" where
  "get_batch_list_namespaces_queries list_ops = map (\<lambda>(_, op). list_namespaces_query op) list_ops"

text \<open>
  Modelled from the spec: the Put plan of section 4.5
  (\<^verbatim>\<open>_prepare_batch_PUT_queries\<close> is missing). Operations on the same
  (namespace, key) collapse to the last one. The deletions become one
  \<^verbatim>\<open>DELETE\<close> per namespace, the others one \<^verbatim>\<open>INSERT ... ON CONFLICT\<close>.
  When indexing is configured, the texts to embed of the inserted items are returned as
  the embedding request, with the statement that will upsert their vectors.
\<close>

fun dedup_puts :: "(nat \<times> 'v put_op) list \<Rightarrow> 'v put_op list" where
  "dedup_puts [] = []"
| "dedup_puts ((_, (ns, k, v, ix)) # rest) =
     (if \<exists>(_, (ns', k', _, _)) \<in> set rest. ns' = ns \<and> k' = k
      then dedup_puts rest
      else (ns, k, v, ix) # dedup_puts rest)"

definition delete_queries :: "'v put_op list \<Rightarrow> ('v, 'vec) statement list" where
  "delete_queries deletes =
     map (\<lambda>ns. (SqlDeleteKeys,
                 [PStr (namespace_to_text ns),
                  PStrs (map (\<lambda>(_, k, _, _). k)
                           (filter (\<lambda>(ns', _, _, _). ns' = ns) deletes))]))
         (remdups (map (\<lambda>(ns, _, _, _). ns) deletes))"

definition insert_queries :: "'v put_op list \<Rightarrow> ('v, 'vec) statement list" where
  "insert_queries inserts =
     (if inserts = [] then []
      else [(SqlUpsertItems,
             concat (map (\<lambda>(ns, k, v, _).
                            [PStr (namespace_to_text ns), PStr k,
                             (case v of None \<Rightarrow> PNone | Some j \<Rightarrow> PJson j)])
                         inserts))])"

definition put_embedding_request ::
  "('v, 'd, 's, 'vec, 'cfg, 'x) backend \<Rightarrow> ('vec, 'cfg) pg_store \<Rightarrow> 'v put_op list
     \<Rightarrow> (sql \<times> (string \<times> string \<times> string \<times> string) list) option" where
  "put_embedding_request B st inserts =
     (case index_config st of
        None \<Rightarrow> None
      | Some cfg \<Rightarrow>
          (let rows = concat (map (\<lambda>(ns, k, v, ix).
                        (case v of
                           None \<Rightarrow> []
                         | Some j \<Rightarrow>
                             map (\<lambda>(pathname, text). (namespace_to_text ns, k, pathname, text))
                                 (index_texts B cfg ns k j ix)))
                      inserts)
           in if rows = [] then None else Some (SqlUpsertVectors, rows)))"

definition prepare_batch_PUT_queries ::
  "('v, 'd, 's, 'vec, 'cfg, 'x) backend \<Rightarrow> ('vec, 'cfg) pg_store \<Rightarrow> (nat \<times> 'v put_op) list
     \<Rightarrow> ('v, 'vec) statement list
        \<times> (sql \<times> (string \<times> string \<times> string \<times> string) list) option" where
  "prepare_batch_PUT_queries B st put_ops =
     (let ops = dedup_puts put_ops;
          deletes = filter (\<lambda>(_, _, v, _). v = None) ops;
          inserts = filter (\<lambda>(_, _, v, _). v \<noteq> None) ops
      in (delete_queries deletes @ insert_queries inserts,
          put_embedding_request B st inserts))"

section \<open>The batched executor: the code of the Postgres store\<close>

text \<open>
  Modelled from the spec: what the statement of the Get plan returns (section 4.5): the
  rows of the table \<^verbatim>\<open>store\<close> under one encoded namespace whose key is one of
  the requested keys (\<^verbatim>\<open>key = ANY($1)\<close>), in the order the table holds them.
\<close>

definition select_rows ::
  "('v, 'd, 'x) database \<Rightarrow> string \<Rightarrow> string list \<Rightarrow> ('v, 'd) store_row list" where
  "select_rows db p ks =
     filter (\<lambda>r. row_prefix r = p \<and> row_key r \<in> set ks) (store_table db)"

text \<open>
  \<^verbatim>\<open>await cur.execute(query, params)\<close> followed by \<^verbatim>\<open>await cur.fetchall()\<close>,
  for each of the three kinds of rows the code reads, and \<^verbatim>\<open>cur.execute\<close> alone
  for a statement that writes. The statement joins the dispatched ones; a statement the
  server refuses raises, and so does a Get statement whose parameters are not a prefix
  and a list of keys.
\<close>

definition dispatch ::
  "('v, 'd, 'vec, 'x) cursor \<Rightarrow> ('v, 'vec) statement \<Rightarrow> ('v, 'd, 'vec, 'x) cursor" where
  "dispatch cur q = cur\<lparr>dispatched := dispatched cur @ [q]\<rparr>"

definition fetch_items ::
  "('v, 'd, 's, 'vec, 'cfg, 'x) backend \<Rightarrow> ('v, 'd, 'vec, 'x) cursor \<Rightarrow> ('v, 'vec) statement
     \<Rightarrow> error + (('v, 'd) store_row list \<times> ('v, 'd, 'vec, 'x) cursor)" where
  "fetch_items B cur q =
     (if fails B (cur_db cur) q then Inl DatabaseError
      else case q of
        (SqlSelectKeys, [PStr p, PStrs ks]) \<Rightarrow>
          Inr (select_rows (cur_db cur) p ks, dispatch cur q)
      | _ \<Rightarrow> Inl DatabaseError)"

definition fetch_search ::
  "('v, 'd, 's, 'vec, 'cfg, 'x) backend \<Rightarrow> ('v, 'd, 'vec, 'x) cursor \<Rightarrow> ('v, 'vec) statement
     \<Rightarrow> error + (('v, 'd, 's) search_row list \<times> ('v, 'd, 'vec, 'x) cursor)" where
  "fetch_search B cur q =
     (if fails B (cur_db cur) q then Inl DatabaseError
      else Inr (search_rows B (cur_db cur) q, dispatch cur q))"

definition fetch_namespaces ::
  "('v, 'd, 's, 'vec, 'cfg, 'x) backend \<Rightarrow> ('v, 'd, 'vec, 'x) cursor \<Rightarrow> ('v, 'vec) statement
     \<Rightarrow> error + (string list \<times> ('v, 'd, 'vec, 'x) cursor)" where
  "fetch_namespaces B cur q =
     (if fails B (cur_db cur) q then Inl DatabaseError
      else Inr (namespace_rows B (cur_db cur) q, dispatch cur q))"

definition execute_write ::
  "('v, 'd, 's, 'vec, 'cfg, 'x) backend \<Rightarrow> ('v, 'd, 'vec, 'x) cursor \<Rightarrow> ('v, 'vec) statement
     \<Rightarrow> error + ('v, 'd, 'vec, 'x) cursor" where
  "execute_write B cur q =
     (if fails B (cur_db cur) q then Inl DatabaseError
      else Inr (dispatch (cur\<lparr>cur_db := write_effect B (cur_db cur) q\<rparr>) q))"

text \<open>\<^verbatim>\<open>results[idx] = x\<close>: \<^verbatim>\<open>IndexError\<close> outside the list.\<close>

definition assign :: "'a list \<Rightarrow> nat \<Rightarrow> 'a \<Rightarrow> error + 'a list" where
  "assign xs idx x = (if idx < length xs then Inr (xs[idx := x]) else Inl IndexError)"

text \<open>
  \<^verbatim>\<open>{row["key"]: row for row in rows}\<close> followed by \<^verbatim>\<open>.get(key)\<close>: of the rows
  with the key, the dictionary keeps the last.
\<close>

definition key_to_row :: "('v, 'd) store_row list \<Rightarrow> string \<Rightarrow> ('v, 'd) store_row option" where
  "key_to_row rows key = find (\<lambda>r. row_key r = key) (rev rows)"

text \<open>The loop of lines 238-245.\<close>

fun fill_items ::
  "namespace \<Rightarrow> ('v, 'd) store_row list \<Rightarrow> (nat \<times> string) list \<Rightarrow> ('v, 'd, 's) result list
     \<Rightarrow> error + ('v, 'd, 's) result list" where
  "fill_items ns rows [] results = Inr results"
| "fill_items ns rows ((idx, key) # items) results =
     (case assign results idx
             (case key_to_row rows key of
                Some row \<Rightarrow> RItem (row_to_item ns row)
              | None \<Rightarrow> RNone) of
        Inl e \<Rightarrow> Inl e
      | Inr results' \<Rightarrow> fill_items ns rows items results')"

text \<open>The loop of lines 234-245 over the planned statements.\<close>

fun get_loop ::
  "('v, 'd, 's, 'vec, 'cfg, 'x) backend
     \<Rightarrow> (('v, 'vec) statement \<times> namespace \<times> (nat \<times> string) list) list
     \<Rightarrow> ('v, 'd, 's) result list \<Rightarrow> ('v, 'd, 'vec, 'x) cursor
     \<Rightarrow> error + (('v, 'd, 's) result list \<times> ('v, 'd, 'vec, 'x) cursor)" where
  "get_loop B [] results cur = Inr (results, cur)"
| "get_loop B ((q, ns, items) # rest) results cur =
     (case fetch_items B cur q of
        Inl e \<Rightarrow> Inl e
      | Inr (rows, cur') \<Rightarrow>
          (case fill_items ns rows items results of
             Inl e \<Rightarrow> Inl e
           | Inr results' \<Rightarrow> get_loop B rest results' cur'))"

text \<open>\<^verbatim>\<open>_batch_get_ops\<close> (lines 228-245).\<close>

definition batch_get_ops ::
  "('v, 'd, 's, 'vec, 'cfg, 'x) backend \<Rightarrow> (nat \<times> get_op) list
     \<Rightarrow> ('v, 'd, 's) result list \<Rightarrow> ('v, 'd, 'vec, 'x) cursor
     \<Rightarrow> error + (('v, 'd, 's) result list \<times> ('v, 'd, 'vec, 'x) cursor)" where
  "batch_get_ops B get_ops results cur =
     get_loop B (get_batch_GET_ops_queries get_ops) results cur"

text \<open>
  \<^verbatim>\<open>queries[idx][1][0] = vector\<close> (line 293): \<^verbatim>\<open>IndexError\<close> when there is no
  such statement or it has no parameter.
\<close>

definition splice_vector ::
  "('v, 'vec) statement list \<Rightarrow> nat \<Rightarrow> 'vec \<Rightarrow> error + ('v, 'vec) statement list" where
  "splice_vector queries idx vector =
     (if idx < length queries
      then (case queries ! idx of
              (query, params) \<Rightarrow>
                if params = [] then Inl IndexError
                else Inr (queries[idx := (query, params[0 := PVector vector])]))
      else Inl IndexError)"

text \<open>The loop of lines 292-293 over the zipped requests and vectors.\<close>

fun splice_loop ::
  "((nat \<times> string) \<times> 'vec) list \<Rightarrow> ('v, 'vec) statement list
     \<Rightarrow> error + ('v, 'vec) statement list" where
  "splice_loop [] queries = Inr queries"
| "splice_loop (((idx, _), vector) # rest) queries =
     (case splice_vector queries idx vector of
        Inl e \<Rightarrow> Inl e
      | Inr queries' \<Rightarrow> splice_loop rest queries')"

text \<open>The loop of lines 295-304 over the zipped operations and statements.\<close>

fun search_loop ::
  "('v, 'd, 's, 'vec, 'cfg, 'x) backend
     \<Rightarrow> ((nat \<times> 'v search_op) \<times> ('v, 'vec) statement) list
     \<Rightarrow> ('v, 'd, 's) result list \<Rightarrow> ('v, 'd, 'vec, 'x) cursor
     \<Rightarrow> error + (('v, 'd, 's) result list \<times> ('v, 'd, 'vec, 'x) cursor)" where
  "search_loop B [] results cur = Inr (results, cur)"
| "search_loop B (((idx, _), q) # rest) results cur =
     (case fetch_search B cur q of
        Inl e \<Rightarrow> Inl e
      | Inr (rows, cur') \<Rightarrow>
          (case assign results idx
                  (RSearchItems
                     (map (\<lambda>row. row_to_search_item (decode_ns_bytes (row_prefix row)) row)
                        rows)) of
             Inl e \<Rightarrow> Inl e
           | Inr results' \<Rightarrow> search_loop B rest results' cur'))"

text \<open>
  \<^verbatim>\<open>_batch_search_ops\<close> from line 288 on, for any plan: the statements and the
  embedding requests the planner returned. The vectors are computed and written into the
  statements only when there are requests and \<^verbatim>\<open>self.embeddings\<close> is set; in
  every case the statements are then dispatched.
\<close>

definition batch_search_plan ::
  "('v, 'd, 's, 'vec, 'cfg, 'x) backend \<Rightarrow> ('vec, 'cfg) pg_store
     \<Rightarrow> ('v, 'vec) statement list \<times> (nat \<times> string) list
     \<Rightarrow> (nat \<times> 'v search_op) list
     \<Rightarrow> ('v, 'd, 's) result list \<Rightarrow> ('v, 'd, 'vec, 'x) cursor
     \<Rightarrow> error + (('v, 'd, 's) result list \<times> ('v, 'd, 'vec, 'x) cursor)" where
  "batch_search_plan B st plan search_ops results cur =
     (case plan of (queries, embedding_requests) \<Rightarrow>
        (case (if embedding_requests \<noteq> []
               then (case embeddings st of
                       Some embedder \<Rightarrow>
                         splice_loop
                           (zip embedding_requests
                              (aembed_documents embedder (map snd embedding_requests)))
                           queries
                     | None \<Rightarrow> Inr queries)
               else Inr queries) of
           Inl e \<Rightarrow> Inl e
         | Inr queries' \<Rightarrow> search_loop B (zip search_ops queries') results cur))"

text \<open>\<^verbatim>\<open>_batch_search_ops\<close> (lines 280-304).\<close>

definition batch_search_ops ::
  "('v, 'd, 's, 'vec, 'cfg, 'x) backend \<Rightarrow> ('vec, 'cfg) pg_store \<Rightarrow> (nat \<times> 'v search_op) list
     \<Rightarrow> ('v, 'd, 's) result list \<Rightarrow> ('v, 'd, 'vec, 'x) cursor
     \<Rightarrow> error + (('v, 'd, 's) result list \<times> ('v, 'd, 'vec, 'x) cursor)" where
  "batch_search_ops B st search_ops results cur =
     batch_search_plan B st (prepare_batch_search_queries st search_ops) search_ops results cur"

text \<open>The loop of lines 313-317 over the zipped statements and operations.\<close>

fun list_loop ::
  "('v, 'd, 's, 'vec, 'cfg, 'x) backend
     \<Rightarrow> (('v, 'vec) statement \<times> (nat \<times> list_op)) list
     \<Rightarrow> ('v, 'd, 's) result list \<Rightarrow> ('v, 'd, 'vec, 'x) cursor
     \<Rightarrow> error + (('v, 'd, 's) result list \<times> ('v, 'd, 'vec, 'x) cursor)" where
  "list_loop B [] results cur = Inr (results, cur)"
| "list_loop B ((q, (idx, _)) # rest) results cur =
     (case fetch_namespaces B cur q of
        Inl e \<Rightarrow> Inl e
      | Inr (rows, cur') \<Rightarrow>
          (case assign results idx (RNamespaces (map decode_ns_bytes rows)) of
             Inl e \<Rightarrow> Inl e
           | Inr results' \<Rightarrow> list_loop B rest results' cur'))"

text \<open>\<^verbatim>\<open>_batch_list_namespaces_ops\<close> (lines 306-317).\<close>

definition batch_list_namespaces_ops ::
  "('v, 'd, 's, 'vec, 'cfg, 'x) backend \<Rightarrow> (nat \<times> list_op) list
     \<Rightarrow> ('v, 'd, 's) result list \<Rightarrow> ('v, 'd, 'vec, 'x) cursor
     \<Rightarrow> error + (('v, 'd, 's) result list \<times> ('v, 'd, 'vec, 'x) cursor)" where
  "batch_list_namespaces_ops B list_ops results cur =
     list_loop B (zip (get_batch_list_namespaces_queries list_ops) list_ops) results cur"

text \<open>The loop of lines 277-278.\<close>

fun write_loop ::
  "('v, 'd, 's, 'vec, 'cfg, 'x) backend \<Rightarrow> ('v, 'vec) statement list
     \<Rightarrow> ('v, 'd, 'vec, 'x) cursor \<Rightarrow> error + ('v, 'd, 'vec, 'x) cursor" where
  "write_loop B [] cur = Inr cur"
| "write_loop B (q # rest) cur =
     (case execute_write B cur q of
        Inl e \<Rightarrow> Inl e
      | Inr cur' \<Rightarrow> write_loop B rest cur')"

text \<open>
  \<^verbatim>\<open>_batch_put_ops\<close> from line 253 on, for any plan: the statements and the
  optional embedding request the planner returned. With a request and no embedder it
  raises the \<^verbatim>\<open>ValueError\<close> of line 257; with an embedder the vector statement
  is appended, its parameters the texts' coordinates with their vectors.
\<close>

definition batch_put_plan ::
  "('v, 'd, 's, 'vec, 'cfg, 'x) backend \<Rightarrow> ('vec, 'cfg) pg_store
     \<Rightarrow> ('v, 'vec) statement list
        \<times> (sql \<times> (string \<times> string \<times> string \<times> string) list) option
     \<Rightarrow> ('v, 'd, 'vec, 'x) cursor \<Rightarrow> error + ('v, 'd, 'vec, 'x) cursor" where
  "batch_put_plan B st plan cur =
     (case plan of (queries, embedding_request) \<Rightarrow>
        (case embedding_request of
           Some (query, txt_params) \<Rightarrow>
             (case embeddings st of
                None \<Rightarrow> Inl (ValueError EmbeddingConfigRequired)
              | Some embedder \<Rightarrow>
                  write_loop B
                    (queries @
                     [(query,
                       concat (map (\<lambda>((ns, k, pathname, _), vector).
                                      [PStr ns, PStr k, PStr pathname, PVector vector])
                                 (zip txt_params
                                    (aembed_documents embedder
                                       (map (\<lambda>(_, _, _, text). text) txt_params)))))])
                    cur)
         | None \<Rightarrow> write_loop B queries cur))"

text \<open>\<^verbatim>\<open>_batch_put_ops\<close> (lines 247-278).\<close>

definition batch_put_ops ::
  "('v, 'd, 's, 'vec, 'cfg, 'x) backend \<Rightarrow> ('vec, 'cfg) pg_store \<Rightarrow> (nat \<times> 'v put_op) list
     \<Rightarrow> ('v, 'd, 'vec, 'x) cursor \<Rightarrow> error + ('v, 'd, 'vec, 'x) cursor" where
  "batch_put_ops B st put_ops cur =
     batch_put_plan B st (prepare_batch_PUT_queries B st put_ops) cur"

text \<open>
  \<^verbatim>\<open>_execute_batch\<close> (lines 197-226): the four groups in the order of the four
  \<^verbatim>\<open>if\<close> statements, each only when its kind is a key of \<^verbatim>\<open>grouped_ops\<close>.
\<close>

definition execute_batch ::
  "('v, 'd, 's, 'vec, 'cfg, 'x) backend \<Rightarrow> ('vec, 'cfg) pg_store \<Rightarrow> 'v grouped_ops
     \<Rightarrow> ('v, 'd, 's) result list \<Rightarrow> ('v, 'd, 'vec, 'x) cursor
     \<Rightarrow> error + (('v, 'd, 's) result list \<times> ('v, 'd, 'vec, 'x) cursor)" where
  "execute_batch B st grouped results cur =
     (case (case get_group grouped of
              Some get_ops \<Rightarrow> batch_get_ops B get_ops results cur
            | None \<Rightarrow> Inr (results, cur)) of
        Inl e \<Rightarrow> Inl e
      | Inr (results1, cur1) \<Rightarrow>
     (case (case search_group grouped of
              Some search_ops \<Rightarrow> batch_search_ops B st search_ops results1 cur1
            | None \<Rightarrow> Inr (results1, cur1)) of
        Inl e \<Rightarrow> Inl e
      | Inr (results2, cur2) \<Rightarrow>
     (case (case list_group grouped of
              Some list_ops \<Rightarrow> batch_list_namespaces_ops B list_ops results2 cur2
            | None \<Rightarrow> Inr (results2, cur2)) of
        Inl e \<Rightarrow> Inl e
      | Inr (results3, cur3) \<Rightarrow>
     (case put_group grouped of
        Some put_ops \<Rightarrow>
          (case batch_put_ops B st put_ops cur3 of
             Inl e \<Rightarrow> Inl e
           | Inr cur4 \<Rightarrow> Inr (results3, cur4))
      | None \<Rightarrow> Inr (results3, cur3)))))"

text \<open>
  \<^verbatim>\<open>abatch\<close> (lines 77-88). Both branches of line 82 run the same call; acquiring
  the connection and the pipeline is the cursor it is given here.
\<close>

definition abatch ::
  "('v, 'd, 's, 'vec, 'cfg, 'x) backend \<Rightarrow> ('vec, 'cfg) pg_store \<Rightarrow> (namespace, 'v) op list
     \<Rightarrow> ('v, 'd, 'vec, 'x) cursor
     \<Rightarrow> error + (('v, 'd, 's) result list \<times> ('v, 'd, 'vec, 'x) cursor)" where
  "abatch B st ops cur =
     (case group_ops ops of
        (grouped, num_ops) \<Rightarrow> execute_batch B st grouped (replicate num_ops RNone) cur)"

section \<open>The batched executor: a server to run it on\<close>

text \<open>
  Modelled from the spec: the effect of the two statements of the Put plan on the table
  \<^verbatim>\<open>store\<close> (section 4.5). \<^verbatim>\<open>DELETE ... key = ANY(...)\<close> removes the rows of
  the prefix with one of the keys; \<^verbatim>\<open>INSERT ... ON CONFLICT (namespace, key) DO
  UPDATE SET value = EXCLUDED.value, updated_at = now()\<close> replaces the value of a row
  that exists and appends one that does not. \<open>now\<close> is the server's clock. It is the
  \<open>write_effect\<close> of the server the theorems are evaluated on.
\<close>

fun item_rows :: "('v, 'vec) param list \<Rightarrow> (string \<times> string \<times> 'v) list option" where
  "item_rows [] = Some []"
| "item_rows (PStr p # PStr k # PJson v # rest) =
     (case item_rows rest of None \<Rightarrow> None | Some rows \<Rightarrow> Some ((p, k, v) # rows))"
| "item_rows _ = None"

definition upsert_row ::
  "'d \<Rightarrow> ('v, 'd) store_row list \<Rightarrow> string \<times> string \<times> 'v \<Rightarrow> ('v, 'd) store_row list" where
  "upsert_row now table row =
     (case row of (p, k, v) \<Rightarrow>
        if \<exists>r \<in> set table. row_prefix r = p \<and> row_key r = k
        then map (\<lambda>r. if row_prefix r = p \<and> row_key r = k
                         then r\<lparr>row_value := v, row_updated_at := now\<rparr> else r) table
        else table @ [\<lparr>row_prefix = p, row_key = k, row_value = v,
                        row_created_at = now, row_updated_at = now\<rparr>])"

definition sql_write ::
  "'d \<Rightarrow> ('v, 'd, 'x) database \<Rightarrow> ('v, 'vec) statement \<Rightarrow> ('v, 'd, 'x) database" where
  "sql_write now db q =
     (case q of
        (SqlDeleteKeys, [PStr p, PStrs ks]) \<Rightarrow>
          db\<lparr>store_table :=
               filter (\<lambda>r. \<not> (row_prefix r = p \<and> row_key r \<in> set ks)) (store_table db)\<rparr>
      | (SqlUpsertItems, params) \<Rightarrow>
          (case item_rows params of
             Some rows \<Rightarrow> db\<lparr>store_table := foldl (upsert_row now) (store_table db) rows\<rparr>
           | None \<Rightarrow> db)
      | _ \<Rightarrow> db)"

text \<open>
  A server to evaluate the executor on, over values that are JSON texts. No statement
  fails; a search returns the rows whose prefix starts with the encoded namespace,
  unscored; a listing returns the prefixes of the table; a write has the effect above; the
  text to embed for an item is its whole value, unless the operation disables indexing.
  The theorems below hold for every server; this one is where they are evaluated.
\<close>

definition memory_server :: "'d \<Rightarrow> (string, 'd, 's, 'vec, 'cfg, 'x) backend" where
  "memory_server now =
     \<lparr>fails = (\<lambda>db q. False),
      search_rows = (\<lambda>db q.
         map (\<lambda>r. \<lparr>row_prefix = row_prefix r, row_key = row_key r, row_value = row_value r,
                    row_created_at = row_created_at r, row_updated_at = row_updated_at r,
                    row_score = None\<rparr>)
           (filter (\<lambda>r. case q of
                         (SqlSearchScan, PStr p # _) \<Rightarrow> take (length p) (row_prefix r) = p
                       | (SqlSearchVector, _ # PStr p # _) \<Rightarrow> take (length p) (row_prefix r) = p
                       | _ \<Rightarrow> False)
              (store_table db))),
      namespace_rows = (\<lambda>db q. remdups (map row_prefix (store_table db))),
      write_effect = sql_write now,
      index_texts = (\<lambda>cfg ns k v ix. case ix of Some IndexFalse \<Rightarrow> [] | _ \<Rightarrow> [(''$'', v)])\<rparr>"

section \<open>The batched executor: what a reply is\<close>

text \<open>
  The reply to one operation on a database, independent of any batch. For a Get: the
  item of the row stored under the encoded namespace and the key (the primary key makes
  it unique; of several, the one the executor's dictionary would keep), or nothing. For a
  Search: the items of the rows the server returns for the operation's statement, with
  the vector of its query in place when the store embeds. For a ListNamespaces: the
  decoded namespaces the server returns for its statement. For a Put: nothing.
\<close>

definition lookup_row :: "('v, 'd, 'x) database \<Rightarrow> string \<Rightarrow> string \<Rightarrow> ('v, 'd) store_row option" where
  "lookup_row db p k = find (\<lambda>r. row_prefix r = p \<and> row_key r = k) (rev (store_table db))"

definition search_statement :: "('vec, 'cfg) pg_store \<Rightarrow> 'v search_op \<Rightarrow> ('v, 'vec) statement" where
  "search_statement st op =
     (case op of (ns, f, lim, off, q) \<Rightarrow>
        (case (q, embeddings st) of
           (Some text, Some embedder) \<Rightarrow>
             (SqlSearchVector,
              [PVector (embedder text), PStr (namespace_to_text ns), filter_param f,
               PInt lim, PInt off])
         | _ \<Rightarrow> search_query st op))"

fun reply ::
  "('v, 'd, 's, 'vec, 'cfg, 'x) backend \<Rightarrow> ('vec, 'cfg) pg_store \<Rightarrow> ('v, 'd, 'x) database
     \<Rightarrow> (namespace, 'v) op \<Rightarrow> ('v, 'd, 's) result" where
  "reply B st db (GetOp ns k) =
     (case lookup_row db (namespace_to_text ns) k of
        Some row \<Rightarrow> RItem (row_to_item ns row)
      | None \<Rightarrow> RNone)"
| "reply B st db (SearchOp ns f lim off q) =
     RSearchItems
       (map (\<lambda>row. row_to_search_item (decode_ns_bytes (row_prefix row)) row)
          (search_rows B db (search_statement st (ns, f, lim, off, q))))"
| "reply B st db (ListNamespacesOp mc d lim off) =
     RNamespaces
       (map decode_ns_bytes (namespace_rows B db (list_namespaces_query (mc, d, lim, off))))"
| "reply B st db (PutOp ns k v ix) = RNone"

text \<open>The kind of result each kind of operation is answered with (section 3).\<close>

fun result_fits :: "(namespace, 'v) op \<Rightarrow> ('v, 'd, 's) result \<Rightarrow> bool" where
  "result_fits (GetOp _ _) r = (case r of RNone \<Rightarrow> True | RItem _ \<Rightarrow> True | _ \<Rightarrow> False)"
| "result_fits (SearchOp _ _ _ _ _) r = (case r of RSearchItems _ \<Rightarrow> True | _ \<Rightarrow> False)"
| "result_fits (ListNamespacesOp _ _ _ _) r = (case r of RNamespaces _ \<Rightarrow> True | _ \<Rightarrow> False)"
| "result_fits (PutOp _ _ _ _) r = (r = RNone)"

text \<open>The kind of an operation and of the statements planned for it.\<close>

datatype kind = KGet | KSearch | KList | KPut

fun kind_of_sql :: "sql \<Rightarrow> kind" where
  "kind_of_sql SqlSelectKeys = KGet"
| "kind_of_sql SqlSearchScan = KSearch"
| "kind_of_sql SqlSearchVector = KSearch"
| "kind_of_sql SqlListNamespaces = KList"
| "kind_of_sql SqlDeleteKeys = KPut"
| "kind_of_sql SqlUpsertItems = KPut"
| "kind_of_sql SqlUpsertVectors = KPut"

text \<open>A planned Get statement with its namespace and items, as the planner builds it.\<close>

definition get_plan_ok ::
  "(('v, 'vec) statement \<times> namespace \<times> (nat \<times> string) list) \<Rightarrow> bool" where
  "get_plan_ok g = (case g of (q, ns, items) \<Rightarrow>
      q = (SqlSelectKeys, [PStr (namespace_to_text ns), PStrs (map snd items)]))"

section \<open>Theorems: namespace validation\<close>

lemma check_labels_Inr: "check_labels ns = Inr () \<longleftrightarrow> \<not> list_ex bad_label ns"
  by (induction ns) (auto simp: bad_label_def split: label.splits)

lemma check_labels_Inl:
  "check_labels ns = Inl e \<Longrightarrow> \<exists>r. e = InvalidNamespaceError r"
  by (induction ns) (auto split: label.splits if_splits)

lemma validate_namespace_total:
  "validate_namespace ns = Inr () \<or> (\<exists>r. validate_namespace ns = Inl (InvalidNamespaceError r))"
proof (cases "check_labels ns")
  case (Inl e)
  then show ?thesis
    using check_labels_Inl [of ns e] by (auto simp: validate_namespace_def)
next
  case (Inr u)
  then show ?thesis
    by (cases ns) (auto simp: validate_namespace_def)
qed

lemma bad_label_iff:
  "bad_label l \<longleftrightarrow> l = NonStr \<or> l = Str [] \<or> (\<exists>s. l = Str s \<and> CHR ''.'' \<in> set s)"
  by (cases l) (auto simp: bad_label_def)

text \<open>
  C4. \<^verbatim>\<open>_validate_namespace(ns)\<close> raises \<^verbatim>\<open>InvalidNamespaceError\<close> exactly when
  the tuple is empty, or one of its labels is not a string, is the empty string or contains
  a period, or its first label is \<^verbatim>\<open>"langgraph"\<close>; on every other tuple it returns
  normally, and it raises nothing else.
\<close>

theorem validate_namespace_iff:
  "((\<exists>r. validate_namespace ns = Inl (InvalidNamespaceError r)) \<longleftrightarrow>
      (ns = []
       \<or> (\<exists>l \<in> set ns. l = NonStr)
       \<or> (\<exists>l \<in> set ns. l = Str [])
       \<or> (\<exists>l \<in> set ns. \<exists>s. l = Str s \<and> CHR ''.'' \<in> set s)
       \<or> (\<exists>rest. ns = Str ''langgraph'' # rest)))
   \<and> (validate_namespace ns = Inr () \<longleftrightarrow>
      \<not> (ns = []
       \<or> (\<exists>l \<in> set ns. l = NonStr)
       \<or> (\<exists>l \<in> set ns. l = Str [])
       \<or> (\<exists>l \<in> set ns. \<exists>s. l = Str s \<and> CHR ''.'' \<in> set s)
       \<or> (\<exists>rest. ns = Str ''langgraph'' # rest)))"
proof -
  have bad: "list_ex bad_label ns \<longleftrightarrow>
      ((\<exists>l \<in> set ns. l = NonStr) \<or> (\<exists>l \<in> set ns. l = Str [])
       \<or> (\<exists>l \<in> set ns. \<exists>s. l = Str s \<and> CHR ''.'' \<in> set s))"
    unfolding list_ex_iff bad_label_iff by blast
  show ?thesis
  proof (cases "check_labels ns")
    case (Inl e)
    then obtain r where r: "e = InvalidNamespaceError r"
      using check_labels_Inl by blast
    from Inl have "list_ex bad_label ns"
      using check_labels_Inr [of ns] by auto
    with Inl r bad show ?thesis
      by (auto simp: validate_namespace_def)
  next
    case (Inr u)
    then have "\<not> list_ex bad_label ns"
      using check_labels_Inr [of ns] by simp
    with Inr bad show ?thesis
      by (cases ns) (auto simp: validate_namespace_def)
  qed
qed

theorem validate_namespace_iff_witness:
  "validate_namespace [Str ''docs'', Str ''u1''] = Inr ()
   \<and> (\<exists>r. validate_namespace [Str ''a.b''] = Inl (InvalidNamespaceError r))
   \<and> (\<exists>r. validate_namespace [Str ''langgraph'', Str ''x''] = Inl (InvalidNamespaceError r))
   \<and> (\<exists>r. validate_namespace [] = Inl (InvalidNamespaceError r))
   \<and> (\<exists>r. validate_namespace [Str ''a'', NonStr] = Inl (InvalidNamespaceError r))
   \<and> (\<exists>r. validate_namespace [Str ''a'', Str []] = Inl (InvalidNamespaceError r))"
  using validate_namespace_iff [of "[Str ''docs'', Str ''u1'']"]
    validate_namespace_iff [of "[Str ''a.b'']"]
    validate_namespace_iff [of "[Str ''langgraph'', Str ''x'']"]
    validate_namespace_iff [of "[]"]
    validate_namespace_iff [of "[Str ''a'', NonStr]"]
    validate_namespace_iff [of "[Str ''a'', Str []]"]
  by simp


section \<open>Theorems: Item\<close>

text \<open>
  C10. Equality of Items is structural over the five fields and an Item never equals an
  object that is not an Item; the hash is the hash of the pair (namespace, key). So equal
  Items have equal hashes, and two Items with the same namespace and key whose value or
  timestamps differ have the same hash and are not equal.
\<close>

theorem Item_eq_structural_hash_identity:
  fixes a b :: "('v, 'd) item" and h :: "string list \<times> string \<Rightarrow> int"
  shows
  "(Item_eq a (ObjItem b :: ('v, 'd, 's) pyobj) \<longleftrightarrow>
      item_value a = item_value b \<and> item_key a = item_key b
      \<and> item_namespace a = item_namespace b
      \<and> created_at a = created_at b \<and> updated_at a = updated_at b)
   \<and> (Item_eq a (ObjItem b :: ('v, 'd, 's) pyobj) \<longleftrightarrow> a = b)
   \<and> \<not> Item_eq a (ObjOther :: ('v, 'd, 's) pyobj)
   \<and> Item_hash h a = h (item_namespace a, item_key a)
   \<and> (Item_eq a (ObjItem b :: ('v, 'd, 's) pyobj) \<longrightarrow> Item_hash h a = Item_hash h b)
   \<and> (item_namespace a = item_namespace b \<and> item_key a = item_key b
        \<and> (item_value a \<noteq> item_value b \<or> created_at a \<noteq> created_at b
             \<or> updated_at a \<noteq> updated_at b)
       \<longrightarrow> Item_hash h a = Item_hash h b \<and> \<not> Item_eq a (ObjItem b :: ('v, 'd, 's) pyobj))"
  by (cases a, cases b) (auto simp: Item_eq_def fields_eq_def Item_hash_def)

theorem Item_eq_structural_hash_identity_witness:
  "Item_hash (\<lambda>(ns, k). int (length ns + length k))
     \<lparr>item_value = (1::nat), item_key = ''r1'', item_namespace = [''docs'', ''u1''],
      created_at = (10::nat), updated_at = 10\<rparr>
   = Item_hash (\<lambda>(ns, k). int (length ns + length k))
     \<lparr>item_value = (2::nat), item_key = ''r1'', item_namespace = [''docs'', ''u1''],
      created_at = (10::nat), updated_at = 20\<rparr>
   \<and> \<not> Item_eq
     \<lparr>item_value = (1::nat), item_key = ''r1'', item_namespace = [''docs'', ''u1''],
      created_at = (10::nat), updated_at = 10\<rparr>
     (ObjItem \<lparr>item_value = (2::nat), item_key = ''r1'', item_namespace = [''docs'', ''u1''],
      created_at = (10::nat), updated_at = 20\<rparr> :: (nat, nat, nat) pyobj)
   \<and> Item_eq
     \<lparr>item_value = (1::nat), item_key = ''r1'', item_namespace = [''docs'', ''u1''],
      created_at = (10::nat), updated_at = 10\<rparr>
     (ObjItem \<lparr>item_value = (1::nat), item_key = ''r1'', item_namespace = [''docs'', ''u1''],
      created_at = (10::nat), updated_at = 10\<rparr> :: (nat, nat, nat) pyobj)"
  using Item_eq_structural_hash_identity
    [of "\<lparr>item_value = (1::nat), item_key = ''r1'', item_namespace = [''docs'', ''u1''],
          created_at = (10::nat), updated_at = 10\<rparr>"
        "\<lparr>item_value = (2::nat), item_key = ''r1'', item_namespace = [''docs'', ''u1''],
          created_at = (10::nat), updated_at = 20\<rparr>"
        "\<lambda>(ns, k). int (length ns + length k)", where ?'s = nat]
    Item_eq_structural_hash_identity
    [of "\<lparr>item_value = (1::nat), item_key = ''r1'', item_namespace = [''docs'', ''u1''],
          created_at = (10::nat), updated_at = 10\<rparr>"
        "\<lparr>item_value = (1::nat), item_key = ''r1'', item_namespace = [''docs'', ''u1''],
          created_at = (10::nat), updated_at = 10\<rparr>"
        "\<lambda>(ns, k). int (length ns + length k)", where ?'s = nat]
  by simp

text \<open>
  The comparison does not read \<^verbatim>\<open>score\<close>: an Item equals a SearchItem with the
  same five fields.
\<close>

lemma Item_eq_SearchItem:
  "Item_eq a (ObjSearchItem b) \<longleftrightarrow> fields_eq a b"
  by (simp add: Item_eq_def)

text \<open>
  C5 (the code differs). With both timestamps given as ISO strings,
  \<^verbatim>\<open>Item.__init__\<close> parses the \<^verbatim>\<open>created_at\<close> string for both fields: the
  \<^verbatim>\<open>updated_at\<close> string is never read. Here a datetime is denoted by its ISO text,
  so the parser is the identity; the item built from 2024-01-01 and 2024-06-01 has
  2024-01-01 in both fields.
\<close>

theorem Item_init_updated_at_parses_created_at:
  "Item_init Inr (0::nat) ''r1'' [''docs'', ''u1'']
     (TsStr ''2024-01-01T00:00:00'') (TsStr ''2024-06-01T00:00:00'')
   = Inr \<lparr>item_value = 0, item_key = ''r1'', item_namespace = [''docs'', ''u1''],
          created_at = ''2024-01-01T00:00:00'', updated_at = ''2024-01-01T00:00:00''\<rparr>"
  by (simp add: Item_init_def fromisoformat_def)

text \<open>The same for every parser and every pair of strings.\<close>

lemma Item_init_strings:
  "Item_init fromiso v k ns (TsStr c) (TsStr u) =
     (case fromiso c of
        Inl e \<Rightarrow> Inl e
      | Inr d \<Rightarrow> Inr \<lparr>item_value = v, item_key = k, item_namespace = ns,
                      created_at = d, updated_at = d\<rparr>)"
  by (simp add: Item_init_def fromisoformat_def split: sum.splits)

text \<open>
  A datetime for \<^verbatim>\<open>created_at\<close> and a string for \<^verbatim>\<open>updated_at\<close>: the parser is
  handed the datetime and raises.
\<close>

lemma Item_init_datetime_string:
  "Item_init fromiso v k ns (TsDatetime d) (TsStr u) =
     Inl (TypeError ''fromisoformat: argument must be str'')"
  by (simp add: Item_init_def fromisoformat_def)

section \<open>Theorems: the facade\<close>

text \<open>
  C8. Each facade helper is a singleton batch. \<^verbatim>\<open>get\<close>, \<^verbatim>\<open>search\<close> and
  \<^verbatim>\<open>list_namespaces\<close> return slot 0 of the batch of their one operation;
  \<^verbatim>\<open>put\<close> validates the namespace first: on an invalid namespace it raises
  \<^verbatim>\<open>InvalidNamespaceError\<close> with the store untouched, whatever the batch function
  is, and on a valid one it runs the batch of the one \<^verbatim>\<open>PutOp\<close>. The cooperative
  forms satisfy the same equations over \<^verbatim>\<open>abatch\<close>.
\<close>

theorem facade_singleton_batch:
  "get batch ns k st = singleton_batch batch (GetOp ns k) st
   \<and> search batch ns q f lim off st = singleton_batch batch (SearchOp ns f lim off q) st
   \<and> list_namespaces batch pre suf d lim off st =
       singleton_batch batch
         (ListNamespacesOp (Some (match_conditions_of pre suf)) d lim off) st
   \<and> (validate_namespace lns = Inr () \<longrightarrow>
        put lbatch lns k v ix st = singleton_batch_unit lbatch (PutOp lns k (Some v) ix) st)
   \<and> (validate_namespace lns \<noteq> Inr () \<longrightarrow>
        (\<exists>r. put lbatch lns k v ix st = (Inl (InvalidNamespaceError r), st)))
   \<and> aget batch ns k st = singleton_batch batch (GetOp ns k) st
   \<and> asearch batch ns q f lim off st = singleton_batch batch (SearchOp ns f lim off q) st
   \<and> alist_namespaces batch pre suf d lim off st =
       singleton_batch batch
         (ListNamespacesOp (Some (match_conditions_of pre suf)) d lim off) st
   \<and> (validate_namespace lns = Inr () \<longrightarrow>
        aput lbatch lns k v ix st = singleton_batch_unit lbatch (PutOp lns k (Some v) ix) st)
   \<and> (validate_namespace lns \<noteq> Inr () \<longrightarrow>
        (\<exists>r. aput lbatch lns k v ix st = (Inl (InvalidNamespaceError r), st)))"
proof -
  have invalid: "\<exists>r. validate_namespace lns = Inl (InvalidNamespaceError r)"
    if "validate_namespace lns \<noteq> Inr ()"
    using that validate_namespace_total [of lns] by auto
  show ?thesis
    using invalid
    by (auto simp: get_def search_def list_namespaces_def put_def aget_def asearch_def
        alist_namespaces_def aput_def singleton_batch_def singleton_batch_unit_def
        split: prod.splits sum.splits)
qed


theorem facade_singleton_batch_witness:
  "put (\<lambda>ops log. (Inr [0::nat], log @ ops)) [Str ''docs'', Str ''u1''] ''r1'' (5::nat) None []
     = (Inr (), [PutOp [Str ''docs'', Str ''u1''] ''r1'' (Some 5) None])
   \<and> (\<exists>r. put (\<lambda>ops log. (Inr [0::nat], log @ ops)) [Str ''a.b''] ''k'' (5::nat) None []
     = (Inl (InvalidNamespaceError r), []))
   \<and> aput (\<lambda>ops log. (Inr [0::nat], log @ ops)) [Str ''docs'', Str ''u1''] ''r1'' (5::nat) None []
     = (Inr (), [PutOp [Str ''docs'', Str ''u1''] ''r1'' (Some 5) None])
   \<and> (\<exists>r. aput (\<lambda>ops log. (Inr [0::nat], log @ ops)) [Str ''langgraph'', Str ''x''] ''k''
           (5::nat) None []
     = (Inl (InvalidNamespaceError r), []))
   \<and> get (\<lambda>ops log. (Inr [0::nat], log @ ops)) [Str ''docs''] ''r1'' []
     = (Inr 0, [GetOp [Str ''docs''] ''r1'' :: (label list, nat) op])"
proof -
  let ?B = "\<lambda>(ops :: (label list, nat) op list) log. (Inr [0::nat] :: error + nat list, log @ ops)"
  have ok: "validate_namespace [Str ''docs'', Str ''u1''] = Inr ()"
    by (simp add: validate_namespace_def)
  have bad1: "validate_namespace [Str ''a.b''] \<noteq> Inr ()"
    by (simp add: validate_namespace_def)
  have bad2: "validate_namespace [Str ''langgraph'', Str ''x''] \<noteq> Inr ()"
    by (simp add: validate_namespace_def)
  show ?thesis
    using ok bad1 bad2
      facade_singleton_batch [of ?B "[Str ''docs'']" "''r1''" "[]" None None 0 0 None None None
        "[Str ''docs'', Str ''u1'']" ?B 5 None]
      facade_singleton_batch [of ?B "[Str ''docs'']" "''k''" "[]" None None 0 0 None None None
        "[Str ''a.b'']" ?B 5 None]
      facade_singleton_batch [of ?B "[Str ''docs'']" "''k''" "[]" None None 0 0 None None None
        "[Str ''langgraph'', Str ''x'']" ?B 5 None]
    by (simp add: singleton_batch_def singleton_batch_unit_def subscript0_def)
qed

text \<open>
  C9. \<^verbatim>\<open>delete\<close> and \<^verbatim>\<open>adelete\<close> do not validate the namespace: for every
  namespace tuple, valid or not, they run the batch of the one operation
  \<^verbatim>\<open>PutOp(namespace, key, None)\<close>, and they raise \<^verbatim>\<open>InvalidNamespaceError\<close>
  only if that batch does.
\<close>

theorem delete_without_validation:
  fixes ns :: "label list"
  shows
  "delete batch ns k st = singleton_batch_unit batch (PutOp ns k None None) st
   \<and> adelete abatch_fn ns k st = singleton_batch_unit abatch_fn (PutOp ns k None None) st
   \<and> ((\<forall>r. fst (batch [PutOp ns k None None] st) \<noteq> Inl (InvalidNamespaceError r)) \<longrightarrow>
        (\<forall>r. fst (delete batch ns k st) \<noteq> Inl (InvalidNamespaceError r)))
   \<and> ((\<forall>r. fst (abatch_fn [PutOp ns k None None] st) \<noteq> Inl (InvalidNamespaceError r)) \<longrightarrow>
        (\<forall>r. fst (adelete abatch_fn ns k st) \<noteq> Inl (InvalidNamespaceError r)))"
  by (auto simp: delete_def adelete_def singleton_batch_unit_def split: prod.splits sum.splits)

theorem delete_without_validation_witness:
  "(\<exists>r. validate_namespace [] = Inl (InvalidNamespaceError r))
   \<and> delete (\<lambda>ops log. (Inr [0::nat], log @ ops)) ([] :: label list) ''k'' []
     = (Inr (), [PutOp [] ''k'' (None :: nat option) None])
   \<and> (\<exists>r. validate_namespace [Str ''a.b'', Str []] = Inl (InvalidNamespaceError r))
   \<and> delete (\<lambda>ops log. (Inr [0::nat], log @ ops)) [Str ''a.b'', Str []] ''k'' []
     = (Inr (), [PutOp [Str ''a.b'', Str []] ''k'' (None :: nat option) None])
   \<and> (\<exists>r. validate_namespace [Str ''langgraph''] = Inl (InvalidNamespaceError r))
   \<and> adelete (\<lambda>ops log. (Inr [0::nat], log @ ops)) [Str ''langgraph''] ''k'' []
     = (Inr (), [PutOp [Str ''langgraph''] ''k'' (None :: nat option) None])"
proof -
  let ?B = "\<lambda>(ops :: (label list, nat) op list) log. (Inr [0::nat] :: error + nat list, log @ ops)"
  show ?thesis
    using delete_without_validation [of ?B "[]" "''k''" "[]" ?B]
      delete_without_validation [of ?B "[Str ''a.b'', Str []]" "''k''" "[]" ?B]
      delete_without_validation [of ?B "[Str ''langgraph'']" "''k''" "[]" ?B]
    by (simp add: singleton_batch_unit_def validate_namespace_def)
qed

section \<open>Theorems: constructing the Postgres store\<close>

lemma bind_init_locals:
  "bind_init args kwargs = Inr locals \<Longrightarrow> map_of locals ''embedding'' = None"
  by (auto simp: bind_init_def split: if_splits option.splits list.splits prod.splits)

lemma bind_init_Inr_keywords:
  "bind_init args kwargs = Inr locals \<Longrightarrow> fst ` set kwargs \<subseteq> set init_keywords"
  by (auto simp: bind_init_def find_None_iff split: if_splits option.splits prod.splits)

lemma load_embedding:
  "''embedding'' \<notin> set (builtins rt) \<Longrightarrow> map_of locals ''embedding'' = None
   \<Longrightarrow> load_name rt locals ''embedding'' = Inl (NameError ''embedding'')"
  by (simp add: load_name_def module_globals_def)

lemma init_body_fails:
  assumes "''embedding'' \<notin> set (builtins rt)" and "map_of locals ''embedding'' = None"
  shows "\<exists>e. init_body rt locals = Inl e"
  using load_embedding [OF assms]
  by (auto simp: init_body_def split: sum.splits option.splits)

lemma init_fails:
  assumes "''embedding'' \<notin> set (builtins rt)"
  shows "\<exists>e. AsyncPostgresStore_init rt args kwargs = Inl e"
proof (cases "bind_init args kwargs")
  case (Inl e)
  then show ?thesis by (simp add: AsyncPostgresStore_init_def)
next
  case (Inr locals)
  then show ?thesis
    using init_body_fails [OF assms bind_init_locals [OF Inr]]
    by (simp add: AsyncPostgresStore_init_def)
qed

lemma init_embedding_keyword:
  assumes "(''embedding'', v) \<in> set kwargs"
  shows "\<exists>m. AsyncPostgresStore_init rt args kwargs = Inl (TypeError m)"
proof (cases "bind_init args kwargs")
  case (Inl e)
  then show ?thesis
    by (auto simp: AsyncPostgresStore_init_def bind_init_def
        split: if_splits option.splits list.splits prod.splits)
next
  case (Inr locals)
  from bind_init_Inr_keywords [OF Inr] assms
  have "''embedding'' \<in> set init_keywords" by force
  then show ?thesis by (simp add: init_keywords_def)
qed

text \<open>
  C3. No call of a public constructor yields a store (no name of the builtins module is
  \<^verbatim>\<open>embedding\<close>). A call of \<^verbatim>\<open>__init__\<close> always raises; when its arguments
  bind, the pool-with-pipeline check passes and the calls before line 68 succeed, what it
  raises is the \<^verbatim>\<open>NameError\<close> for \<^verbatim>\<open>embedding\<close>. \<^verbatim>\<open>from_conn_string\<close>
  always raises; once the connection or the pool is open, what it raises is the
  \<^verbatim>\<open>TypeError\<close> for the keyword \<^verbatim>\<open>embedding\<close>.
\<close>

theorem no_constructor_yields_a_store:
  assumes "''embedding'' \<notin> set (builtins rt)"
  shows
  "(\<exists>e. AsyncPostgresStore_init rt args kwargs = Inl e)
   \<and> (bind_init args kwargs = Inr locals
        \<and> \<not> (map_of locals ''conn'' = Some PyConnectionPool
              \<and> map_of locals ''pipe'' \<noteq> Some PyNone)
        \<and> runtime_failure rt = None
       \<longrightarrow> AsyncPostgresStore_init rt args kwargs = Inl (NameError ''embedding''))
   \<and> (\<exists>e. from_conn_string rt conn_string pipeline pool_config embedding = Inl e)
   \<and> (connect_failure rt = None \<longrightarrow>
        (\<exists>m. from_conn_string rt conn_string pipeline pool_config embedding
              = Inl (TypeError m)))"
proof -
  have body: "AsyncPostgresStore_init rt args kwargs = Inl (NameError ''embedding'')"
    if b: "bind_init args kwargs = Inr locals"
      and c: "\<not> (map_of locals ''conn'' = Some PyConnectionPool
                 \<and> map_of locals ''pipe'' \<noteq> Some PyNone)"
      and r: "runtime_failure rt = None"
  proof -
    from b obtain cv where locals:
      "locals = [(''self'', PyGlobal), (''conn'', cv),
                 (''pipe'', keyword_or_None kwargs ''pipe''),
                 (''deserializer'', keyword_or_None kwargs ''deserializer''),
                 (''index'', keyword_or_None kwargs ''index'')]"
      by (auto simp: bind_init_def split: if_splits option.splits list.splits prod.splits)
    have emb: "load_name rt locals ''embedding'' = Inl (NameError ''embedding'')"
      using load_embedding [OF assms bind_init_locals [OF b]] .
    show ?thesis
      using b c r emb
      by (auto simp: AsyncPostgresStore_init_def init_body_def load_name_def locals)
  qed
  have typeerr: "\<exists>m. from_conn_string rt conn_string pipeline pool_config embedding
                       = Inl (TypeError m)"
    if "connect_failure rt = None"
    using that
      init_embedding_keyword [of embedding
        "[(''conn'', PyConnectionPool), (''embedding'', embedding)]" rt "[]"]
      init_embedding_keyword [of embedding
        "[(''conn'', PyConnection), (''pipe'', PyPipeline), (''embedding'', embedding)]" rt "[]"]
      init_embedding_keyword [of embedding
        "[(''conn'', PyConnection), (''embedding'', embedding)]" rt "[]"]
    by (auto simp: from_conn_string_def split: option.splits)
  have fcs: "\<exists>e. from_conn_string rt conn_string pipeline pool_config embedding = Inl e"
  proof (cases "connect_failure rt")
    case None
    then show ?thesis using typeerr by blast
  next
    case (Some e)
    then show ?thesis by (auto simp: from_conn_string_def split: option.splits)
  qed
  show ?thesis
    using init_fails [OF assms] body typeerr fcs by blast
qed


theorem no_constructor_yields_a_store_witness:
  "AsyncPostgresStore_init
     \<lparr>builtins = [''len'', ''print'', ''isinstance'', ''callable''],
      runtime_failure = None, connect_failure = None,
      ensure_index_config = (\<lambda>v. Inr (PyCallable, v))\<rparr>
     [PyConnection] [(''index'', PyConfig (1536::nat))]
   = Inl (NameError ''embedding'')
   \<and> from_conn_string
     \<lparr>builtins = [''len'', ''print'', ''isinstance'', ''callable''],
      runtime_failure = None, connect_failure = None,
      ensure_index_config = (\<lambda>v. Inr (PyCallable, v))\<rparr>
     ''postgresql://localhost/db'' False (None :: nat option) (PyConfig (1536::nat))
   = Inl (TypeError ''unexpected keyword argument embedding'')"
proof -
  let ?rt = "\<lparr>builtins = [''len'', ''print'', ''isinstance'', ''callable''],
      runtime_failure = None, connect_failure = None,
      ensure_index_config = (\<lambda>v :: nat pyval. Inr (PyCallable, v) :: error + (nat pyval \<times> nat pyval))\<rparr>"
  have nb: "''embedding'' \<notin> set (builtins ?rt)" by simp
  have b: "bind_init [PyConnection] [(''index'', PyConfig (1536::nat))]
           = Inr [(''self'', PyGlobal), (''conn'', PyConnection), (''pipe'', PyNone),
                  (''deserializer'', PyNone), (''index'', PyConfig 1536)]"
    by (simp add: bind_init_def init_keywords_def keyword_or_None_def)
  have "AsyncPostgresStore_init ?rt [PyConnection] [(''index'', PyConfig (1536::nat))]
        = Inl (NameError ''embedding'')"
    using no_constructor_yields_a_store [OF nb, of "[PyConnection]"
        "[(''index'', PyConfig (1536::nat))]"
        "[(''self'', PyGlobal), (''conn'', PyConnection), (''pipe'', PyNone),
          (''deserializer'', PyNone), (''index'', PyConfig 1536)]"
        "''postgresql://localhost/db''" False "None :: nat option" "PyConfig 1536"] b
    by simp
  moreover have "from_conn_string ?rt ''postgresql://localhost/db'' False (None :: nat option)
        (PyConfig (1536::nat)) = Inl (TypeError ''unexpected keyword argument embedding'')"
    by (simp add: from_conn_string_def AsyncPostgresStore_init_def bind_init_def
        init_keywords_def)
  ultimately show ?thesis by simp
qed

section \<open>Theorems: the migration runner\<close>

lemma select_highest_None: "select_highest vs = None \<longleftrightarrow> vs = []"
  by (cases vs) (auto split: option.splits)

lemma select_highest_Some:
  "select_highest vs = Some m \<Longrightarrow> m \<in> set vs \<and> (\<forall>v \<in> set vs. v \<le> m)"
  by (induction vs arbitrary: m) (auto split: option.splits simp: max_def select_highest_None)

lemma migration_sql_None: "migration_sql rt self m = None \<longleftrightarrow> \<not> not_skipped self m"
  by (auto simp: migration_sql_def not_skipped_def split: migration.splits option.splits)

lemma run_migrations_applied:
  "run_migrations rt self ims db = Inr (db', applied) \<Longrightarrow> versions db = Some vs \<Longrightarrow>
   map fst applied = map fst (filter (\<lambda>(i, m). not_skipped self m) ims)
   \<and> versions db' = Some (vs @ map fst applied)"
proof (induction ims arbitrary: db db' applied vs)
  case Nil
  then show ?case by simp
next
  case (Cons im ims)
  obtain v m where im: "im = (v, m)" by (cases im)
  show ?case
  proof (cases "migration_sql rt self m")
    case None
    with Cons im show ?thesis
      by (auto simp: migration_sql_None)
  next
    case (Some r)
    then have ns: "not_skipped self m"
      using migration_sql_None [of rt self m] by auto
    from Some Cons.prems im obtain sql sch db1 db2 ap where
      r: "r = Inr sql" and sch: "run_sql rt sql (schema db) = Inr sch"
      and ins: "insert_version v (db\<lparr>schema := sch\<rparr>) = Inr db1"
      and rest: "run_migrations rt self ims db1 = Inr (db2, ap)"
      and res: "db' = db2" "applied = (v, sql) # ap"
      by (auto split: sum.splits prod.splits)
    from ins Cons.prems(2) have v1: "versions db1 = Some (vs @ [v])"
      by (auto simp: insert_version_def split: if_splits)
    from Cons.IH [OF rest v1] res ns im show ?thesis by simp
  qed
qed

lemma run_migrations_sql:
  "run_migrations rt self ims db = Inr (db', applied) \<Longrightarrow>
   \<forall>(i, sql) \<in> set applied. \<exists>m. (i, m) \<in> set ims \<and> migration_sql rt self m = Some (Inr sql)"
proof (induction ims arbitrary: db db' applied)
  case Nil
  then show ?case by simp
next
  case (Cons im ims)
  obtain v m where im: "im = (v, m)" by (cases im)
  show ?case
  proof (cases "migration_sql rt self m")
    case None
    with Cons.prems im have "run_migrations rt self ims db = Inr (db', applied)" by simp
    from Cons.IH [OF this] show ?thesis by fastforce
  next
    case (Some r)
    from Some Cons.prems im obtain sql sch db1 db2 ap where
      r: "r = Inr sql" and rest: "run_migrations rt self ims db1 = Inr (db2, ap)"
      and res: "applied = (v, sql) # ap"
      by (auto split: sum.splits prod.splits)
    from Cons.IH [OF rest] Some r res im show ?thesis by fastforce
  qed
qed

lemma run_migrations_all_skipped:
  "\<forall>(i, m) \<in> set ims. \<not> not_skipped self m \<Longrightarrow> run_migrations rt self ims db = Inr (db, [])"
proof (induction ims)
  case Nil
  then show ?case by simp
next
  case (Cons im ims)
  obtain v m where im: "im = (v, m)" by (cases im)
  with Cons.prems have "migration_sql rt self m = None"
    by (simp add: migration_sql_None)
  with Cons im show ?case by simp
qed

lemma enumerate_from_set:
  "set (enumerate_from s xs) = {(s + int j, xs ! j) | j. j < length xs}"
proof (induction xs arbitrary: s)
  case Nil
  then show ?case by simp
next
  case (Cons x xs)
  show ?case
  proof (rule set_eqI)
    fix p
    show "p \<in> set (enumerate_from s (x # xs)) \<longleftrightarrow> p \<in> {(s + int j, (x # xs) ! j) | j. j < length (x # xs)}"
    proof
      assume "p \<in> set (enumerate_from s (x # xs))"
      then consider "p = (s, x)" | j where "j < length xs" "p = (s + 1 + int j, xs ! j)"
        using Cons.IH [of "s + 1"] by auto
      then show "p \<in> {(s + int j, (x # xs) ! j) | j. j < length (x # xs)}"
      proof cases
        case 1
        then show ?thesis by (auto intro: exI [of _ 0])
      next
        case 2
        then show ?thesis by (auto intro!: exI [of _ "Suc j"])
      qed
    next
      assume "p \<in> {(s + int j, (x # xs) ! j) | j. j < length (x # xs)}"
      then obtain j where j: "j < length (x # xs)" "p = (s + int j, (x # xs) ! j)" by auto
      show "p \<in> set (enumerate_from s (x # xs))"
      proof (cases j)
        case 0
        with j show ?thesis by simp
      next
        case (Suc k)
        with j have "p = (s + 1 + int k, xs ! k)" "k < length xs" by auto
        then show ?thesis using Cons.IH [of "s + 1"] by auto
      qed
    qed
  qed
qed

lemma enumerate_from_eq:
  "enumerate_from s xs = map (\<lambda>j. (s + int j, xs ! j)) [0..<length xs]"
proof (induction xs arbitrary: s)
  case Nil
  then show ?case by simp
next
  case (Cons x xs)
  have "[0..<length (x # xs)] = 0 # map Suc [0..<length xs]"
    by (simp add: upt_conv_Cons map_Suc_upt del: upt_Suc)
  then show ?case
    using Cons.IH [of "s + 1"] by (simp add: o_def add.assoc del: upt_Suc)
qed


lemma enumerate_drop_set:
  "set (enumerate_from (int n) (drop n M)) = {(int i, M ! i) | i. n \<le> i \<and> i < length M}"
proof -
  have "set (enumerate_from (int n) (drop n M))
        = {(int n + int j, drop n M ! j) | j. j < length M - n}"
    by (simp add: enumerate_from_set)
  also have "\<dots> = {(int i, M ! i) | i. n \<le> i \<and> i < length M}"
  proof (rule set_eqI, rule iffI)
    fix p
    assume "p \<in> {(int n + int j, drop n M ! j) | j. j < length M - n}"
    then obtain j where j: "j < length M - n" "p = (int n + int j, drop n M ! j)" by auto
    then have "p = (int (n + j), M ! (n + j))" "n \<le> n + j" "n + j < length M" by auto
    then show "p \<in> {(int i, M ! i) | i. n \<le> i \<and> i < length M}" by blast
  next
    fix p
    assume "p \<in> {(int i, M ! i) | i. n \<le> i \<and> i < length M}"
    then obtain i where i: "n \<le> i" "i < length M" "p = (int i, M ! i)" by auto
    then have "i - n < length M - n" "p = (int n + int (i - n), drop n M ! (i - n))" by auto
    then show "p \<in> {(int n + int j, drop n M ! j) | j. j < length M - n}" by blast
  qed
  finally show ?thesis .
qed

lemma enumerate_drop_eq:
  "enumerate_from (int n) (drop n M) = map (\<lambda>i. (int i, M ! i)) [n..<length M]"
proof -
  have "enumerate_from (int n) (drop n M)
        = map (\<lambda>j. (int n + int j, drop n M ! j)) [0..<length M - n]"
    by (simp add: enumerate_from_eq)
  also have "\<dots> = map (\<lambda>j. (int (n + j), M ! (n + j))) [0..<length M - n]"
    by (rule map_cong) auto
  also have "\<dots> = map (\<lambda>i. (int i, M ! i)) (map (\<lambda>j. n + j) [0..<length M - n])"
    by (simp add: o_def)
  also have "map (\<lambda>j. n + j) [0..<length M - n] = [n..<length M]"
    by (cases "n \<le> length M") (simp_all add: map_add_upt add.commute)
  finally show ?thesis .
qed

lemma read_version_props:
  assumes inv: "\<forall>vs. versions db = Some vs \<longrightarrow> (\<forall>v \<in> set vs. 0 \<le> v)"
  shows "- 1 \<le> fst (read_version db)"
    and "versions (snd (read_version db)) = Some (case versions db of None \<Rightarrow> [] | Some vs \<Rightarrow> vs)"
    and "\<forall>v \<in> set (case versions db of None \<Rightarrow> [] | Some vs \<Rightarrow> vs). v \<le> fst (read_version db)"
proof -
  show "- 1 \<le> fst (read_version db)"
  proof (cases "versions db")
    case None
    then show ?thesis by (simp add: read_version_def)
  next
    case (Some vs)
    show ?thesis
    proof (cases "select_highest vs")
      case None
      with Some show ?thesis by (simp add: read_version_def)
    next
      case (Some m)
      then have "m \<in> set vs" by (simp add: select_highest_Some)
      with inv \<open>versions db = Some vs\<close> have "0 \<le> m" by blast
      with Some \<open>versions db = Some vs\<close> show ?thesis by (simp add: read_version_def)
    qed
  qed
  show "versions (snd (read_version db)) = Some (case versions db of None \<Rightarrow> [] | Some vs \<Rightarrow> vs)"
    by (simp add: read_version_def split: option.splits)
  show "\<forall>v \<in> set (case versions db of None \<Rightarrow> [] | Some vs \<Rightarrow> vs). v \<le> fst (read_version db)"
    by (auto simp: read_version_def select_highest_None split: option.splits
        dest!: select_highest_Some)
qed

lemma select_highest_Max:
  "select_highest vs = Some m \<Longrightarrow> m = Max (set vs)"
proof -
  assume "select_highest vs = Some m"
  from select_highest_Some [OF this] have "m \<in> set vs" "\<forall>v \<in> set vs. v \<le> m" by simp_all
  then show ?thesis by (intro Max_eqI [symmetric]) auto
qed

text \<open>
  C6. Take a run of \<^verbatim>\<open>setup()\<close> that succeeds on a database whose recorded
  versions, if any, are indices (not negative). It reads the highest recorded version,
  \<open>-1\<close> when the table is empty, and \<open>-1\<close> with the table created when it is
  missing. The migrations it executes are exactly the entries whose index is greater than
  that version and which line 177 does not skip, in order, each with the statement
  lines 174-186 give it, and it appends the index of each to the table. A second run
  on the resulting database succeeds, executes no migration and leaves the database as it
  is.
\<close>

theorem setup_applies_pending_and_is_idempotent:
  assumes ok: "store_setup rt self M db = Inr (db', applied)"
    and inv: "\<forall>vs. versions db = Some vs \<longrightarrow> (\<forall>v \<in> set vs. 0 \<le> v)"
  shows "(versions db = None \<longrightarrow> read_version db = (- 1, db\<lparr>versions := Some []\<rparr>))
         \<and> (\<forall>vs. versions db = Some vs \<longrightarrow>
               read_version db = (if vs = [] then - 1 else Max (set vs), db))
         \<and> map fst applied =
           map int (filter (\<lambda>i. not_skipped self (M ! i))
                      [nat (fst (read_version db) + 1)..<length M])
         \<and> (\<forall>(i, sql) \<in> set applied.
               migration_sql rt self (M ! nat i) = Some (Inr sql))
         \<and> versions db' =
             Some ((case versions db of None \<Rightarrow> [] | Some vs \<Rightarrow> vs) @ map fst applied)
         \<and> store_setup rt self M db' = Inr (db', [])"
proof -
  define ver where "ver = fst (read_version db)"
  define db1 where "db1 = snd (read_version db)"
  define vs0 where "vs0 = (case versions db of None \<Rightarrow> [] | Some vs \<Rightarrow> vs)"
  define n where "n = nat (ver + 1)"
  have ver: "- 1 \<le> ver" and v1: "versions db1 = Some vs0"
    and le: "\<forall>v \<in> set vs0. v \<le> ver"
    using read_version_props [OF inv] by (simp_all add: ver_def db1_def vs0_def)
  have nn: "ver + 1 = int n" using ver by (simp add: n_def)
  have slice: "py_slice_from M (ver + 1) = drop n M"
    using ver by (simp add: py_slice_from_def n_def)
  define ims where "ims = enumerate_from (int n) (drop n M)"
  have run: "run_migrations rt self ims db1 = Inr (db', applied)"
  proof -
    have "read_version db = (ver, db1)" by (simp add: ver_def db1_def)
    with ok show ?thesis by (simp add: store_setup_def ims_def slice nn [symmetric])
  qed
  from run_migrations_applied [OF run v1]
  have ap: "map fst applied = map fst (filter (\<lambda>(i, m). not_skipped self m) ims)"
    and v': "versions db' = Some (vs0 @ map fst applied)" by simp_all
  have ims_eq: "ims = map (\<lambda>i. (int i, M ! i)) [n..<length M]"
    by (simp add: ims_def enumerate_drop_eq)
  have part1: "map fst applied = map int (filter (\<lambda>i. not_skipped self (M ! i)) [n..<length M])"
    unfolding ap ims_eq by (simp add: filter_map o_def)
  have part2: "\<forall>(i, sql) \<in> set applied. migration_sql rt self (M ! nat i) = Some (Inr sql)"
  proof (clarify)
    fix i sql
    assume "(i, sql) \<in> set applied"
    with run_migrations_sql [OF run] obtain m where
      m: "(i, m) \<in> set ims" "migration_sql rt self m = Some (Inr sql)" by blast
    from m(1) obtain k where "i = int k" "m = M ! k"
      by (auto simp: ims_def enumerate_drop_set)
    with m(2) show "migration_sql rt self (M ! nat i) = Some (Inr sql)" by simp
  qed
  \<comment> \<open>the second run\<close>
  have inv': "\<forall>v \<in> set (vs0 @ map fst applied). 0 \<le> v"
  proof -
    have "\<forall>v \<in> set vs0. 0 \<le> v"
      using inv by (cases "versions db") (simp_all add: vs0_def)
    moreover have "\<forall>v \<in> set (map fst applied). 0 \<le> v"
      unfolding part1 by auto
    ultimately show ?thesis by auto
  qed
  define ver' where "ver' = fst (read_version db')"
  have rv': "read_version db' = (ver', db')"
    using v' by (auto simp: ver'_def read_version_def split: option.splits)
  have ver'_ge: "\<forall>v \<in> set (vs0 @ map fst applied). v \<le> ver'"
    and ver'_m1: "- 1 \<le> ver'"
  proof -
    show "\<forall>v \<in> set (vs0 @ map fst applied). v \<le> ver'"
    proof (cases "select_highest (vs0 @ map fst applied)")
      case None
      then have "vs0 @ map fst applied = []" by (simp only: select_highest_None)
      then show ?thesis by simp
    next
      case (Some m)
      with v' have "ver' = m" by (simp add: ver'_def read_version_def)
      with select_highest_Some [OF Some] show ?thesis by blast
    qed
    show "- 1 \<le> ver'"
    proof (cases "select_highest (vs0 @ map fst applied)")
      case None
      with v' show ?thesis by (simp add: ver'_def read_version_def)
    next
      case (Some m)
      with v' have "ver' = m" by (simp add: ver'_def read_version_def)
      moreover from select_highest_Some [OF Some] inv' have "0 \<le> m" by blast
      ultimately show ?thesis by simp
    qed
  qed
  have ver_le: "ver \<le> ver'"
  proof (cases "versions db")
    case None
    then have "ver = - 1" by (simp add: ver_def read_version_def)
    with ver'_m1 show ?thesis by simp
  next
    case (Some vs)
    show ?thesis
    proof (cases "select_highest vs")
      case None
      with Some have "ver = - 1" by (simp add: ver_def read_version_def)
      with ver'_m1 show ?thesis by simp
    next
      case (Some m)
      with \<open>versions db = Some vs\<close> have "ver = m" "m \<in> set vs0"
        by (auto simp: ver_def read_version_def vs0_def dest: select_highest_Some)
      with ver'_ge show ?thesis by auto
    qed
  qed
  define n' where "n' = nat (ver' + 1)"
  have nn': "ver' + 1 = int n'" using ver'_m1 by (simp add: n'_def)
  have slice': "py_slice_from M (ver' + 1) = drop n' M"
    using ver'_m1 by (simp add: py_slice_from_def n'_def)
  have n_le: "n \<le> n'" using ver_le by (simp add: n_def n'_def)
  have skipped: "\<forall>(i, m) \<in> set (enumerate_from (int n') (drop n' M)). \<not> not_skipped self m"
  proof (clarify)
    fix i m
    assume mem: "(i, m) \<in> set (enumerate_from (int n') (drop n' M))" and ns: "not_skipped self m"
    then obtain k where k: "n' \<le> k" "k < length M" "i = int k" "m = M ! k"
      by (auto simp: enumerate_drop_set)
    with n_le have "(i, m) \<in> set ims"
      by (auto simp: ims_def enumerate_drop_set)
    with ns have "i \<in> set (map fst applied)"
      unfolding ap by force
    with ver'_ge have "i \<le> ver'" by auto
    with k nn' show False by simp
  qed
  have part4: "store_setup rt self M db' = Inr (db', [])"
    using run_migrations_all_skipped [OF skipped, of rt db']
    using slice' by (simp add: store_setup_def rv' nn')
  have part0: "versions db = None \<longrightarrow> read_version db = (- 1, db\<lparr>versions := Some []\<rparr>)"
    by (simp add: read_version_def)
  have part0': "\<forall>vs. versions db = Some vs \<longrightarrow>
      read_version db = (if vs = [] then - 1 else Max (set vs), db)"
    by (auto simp: read_version_def select_highest_None select_highest_Max split: option.splits)
  show ?thesis
    using part0 part0' part1 part2 v' part4 by (simp add: n_def ver_def vs0_def)
qed

theorem setup_applies_pending_and_is_idempotent_witness:
  "store_setup
     \<lparr>percent_format = (\<lambda>s ps. Inr (s @ concat (map snd ps))),
      run_sql = (\<lambda>q log. Inr (log @ [q]))\<rparr>
     True
     [LiteralSql ''m0'', Migration ''m1'' (Some (\<lambda>b. \<not> b)) None,
      Migration ''m2 '' None (Some [(''dims'', ParamPlain ''3'')]),
      Migration ''m3'' (Some (\<lambda>b. \<not> b)) None]
     \<lparr>versions = None, schema = []\<rparr>
   = Inr (\<lparr>versions = Some [0, 2], schema = [''m0'', ''m2 3'']\<rparr>,
          [(0, ''m0''), (2, ''m2 3'')])
   \<and> store_setup
     \<lparr>percent_format = (\<lambda>s ps. Inr (s @ concat (map snd ps))),
      run_sql = (\<lambda>q log. Inr (log @ [q]))\<rparr>
     True
     [LiteralSql ''m0'', Migration ''m1'' (Some (\<lambda>b. \<not> b)) None,
      Migration ''m2 '' None (Some [(''dims'', ParamPlain ''3'')]),
      Migration ''m3'' (Some (\<lambda>b. \<not> b)) None]
     \<lparr>versions = Some [0, 2], schema = [''m0'', ''m2 3'']\<rparr>
   = Inr (\<lparr>versions = Some [0, 2], schema = [''m0'', ''m2 3'']\<rparr>, [])"
proof -
  let ?rt = "\<lparr>percent_format = (\<lambda>s ps. Inr (s @ concat (map snd ps)) :: error + string),
      run_sql = (\<lambda>q log. Inr (log @ [q]) :: error + string list)\<rparr>"
  let ?M = "[LiteralSql ''m0'', Migration ''m1'' (Some (\<lambda>b. \<not> b)) None,
      Migration ''m2 '' None (Some [(''dims'', ParamPlain ''3'')]),
      Migration ''m3'' (Some (\<lambda>b. \<not> b)) None]"
  let ?db = "\<lparr>versions = None, schema = [] :: string list\<rparr>"
  let ?db' = "\<lparr>versions = Some [0, 2], schema = [''m0'', ''m2 3'']\<rparr>"
  have ok: "store_setup ?rt True ?M ?db = Inr (?db', [(0, ''m0''), (2, ''m2 3'')])"
    by (simp add: store_setup_def read_version_def py_slice_from_def migration_sql_def
        insert_version_def)
  have inv: "\<forall>vs. versions ?db = Some vs \<longrightarrow> (\<forall>v \<in> set vs. 0 \<le> v)"
    by simp
  have again: "store_setup ?rt True ?M ?db' = Inr (?db', [])"
    by (rule setup_applies_pending_and_is_idempotent [OF ok inv, THEN conjunct2,
          THEN conjunct2, THEN conjunct2, THEN conjunct2, THEN conjunct2])
  from ok again show ?thesis
    by (rule conjI)
qed


section \<open>Theorems: the batched executor\<close>

lemma get_ops_of_iff:
  "(i, (ns, k)) \<in> set (get_ops_of s ops) \<longleftrightarrow>
     (\<exists>j<length ops. i = s + j \<and> ops ! j = GetOp ns k)"
proof (induction ops arbitrary: s)
  case Nil
  then show ?case by simp
next
  case (Cons op ops)
  show ?case
    by (cases op) (auto simp: Cons.IH Ex_less_Suc2)
qed

lemma search_ops_of_iff:
  "(i, (ns, f, lim, off, q)) \<in> set (search_ops_of s ops) \<longleftrightarrow>
     (\<exists>j<length ops. i = s + j \<and> ops ! j = SearchOp ns f lim off q)"
proof (induction ops arbitrary: s)
  case Nil
  then show ?case by simp
next
  case (Cons op ops)
  show ?case
    by (cases op) (auto simp: Cons.IH Ex_less_Suc2)
qed

lemma list_ops_of_iff:
  "(i, (mc, d, lim, off)) \<in> set (list_ops_of s ops) \<longleftrightarrow>
     (\<exists>j<length ops. i = s + j \<and> ops ! j = ListNamespacesOp mc d lim off)"
proof (induction ops arbitrary: s)
  case Nil
  then show ?case by simp
next
  case (Cons op ops)
  show ?case
    by (cases op) (auto simp: Cons.IH Ex_less_Suc2)
qed

lemma put_ops_of_iff:
  "(i, (ns, k, v, ix)) \<in> set (put_ops_of s ops) \<longleftrightarrow>
     (\<exists>j<length ops. i = s + j \<and> ops ! j = PutOp ns k v ix)"
proof (induction ops arbitrary: s)
  case Nil
  then show ?case by simp
next
  case (Cons op ops)
  show ?case
    by (cases op) (auto simp: Cons.IH Ex_less_Suc2)
qed


lemma find_filter: "find P (filter Q xs) = find (\<lambda>x. Q x \<and> P x) xs"
  by (induction xs) auto

lemma key_to_row_select:
  assumes "k \<in> set ks"
  shows "key_to_row (select_rows db p ks) k = lookup_row db p k"
proof -
  have "find (\<lambda>r. (row_prefix r = p \<and> row_key r \<in> set ks) \<and> row_key r = k) xs
        = find (\<lambda>r. row_prefix r = p \<and> row_key r = k) xs" for xs :: "('a, 'b) store_row list"
    using assms by (intro find_cong) auto
  then show ?thesis
    unfolding key_to_row_def lookup_row_def select_rows_def rev_filter find_filter by simp
qed

lemma assign_Inr: "assign xs idx x = Inr ys \<longleftrightarrow> idx < length xs \<and> ys = xs[idx := x]"
  by (auto simp: assign_def)

lemma fill_items_spec:
  assumes "fill_items ns rows items results = Inr results'"
    and "\<forall>(idx, key) \<in> set items.
           (case key_to_row rows key of Some row \<Rightarrow> RItem (row_to_item ns row) | None \<Rightarrow> RNone)
           = E idx"
  shows "length results' = length results
         \<and> (\<forall>i<length results. results' ! i = (if i \<in> fst ` set items then E i else results ! i))"
  using assms
proof (induction items arbitrary: results)
  case Nil
  then show ?case by simp
next
  case (Cons it items)
  obtain idx key where it: "it = (idx, key)" by (cases it)
  from Cons.prems(1) it obtain r1 where
    a: "assign results idx
          (case key_to_row rows key of Some row \<Rightarrow> RItem (row_to_item ns row) | None \<Rightarrow> RNone)
        = Inr r1"
    and rest: "fill_items ns rows items r1 = Inr results'"
    by (auto split: sum.splits)
  from Cons.prems(2) it have e: "(case key_to_row rows key of Some row \<Rightarrow> RItem (row_to_item ns row)
      | None \<Rightarrow> RNone) = E idx" by simp
  from a e have r1: "idx < length results" "r1 = results[idx := E idx]"
    by (simp_all add: assign_Inr)
  from Cons.prems(2) have "\<forall>(idx, key) \<in> set items.
           (case key_to_row rows key of Some row \<Rightarrow> RItem (row_to_item ns row) | None \<Rightarrow> RNone)
           = E idx" by simp
  from Cons.IH [OF rest this] r1 it show ?case
    by (auto simp: nth_list_update)
qed

lemma fill_items_total:
  "\<forall>(idx, key) \<in> set items. idx < length results \<Longrightarrow>
   \<exists>results'. fill_items ns rows items results = Inr results'"
proof (induction items arbitrary: results)
  case Nil
  then show ?case by simp
next
  case (Cons it items)
  obtain idx key where it: "it = (idx, key)" by (cases it)
  let ?r1 = "results[idx := (case key_to_row rows key of Some row \<Rightarrow> RItem (row_to_item ns row)
      | None \<Rightarrow> RNone)]"
  from Cons.prems it have "\<forall>(idx, key) \<in> set items. idx < length ?r1" by auto
  from Cons.IH [OF this] Cons.prems it show ?case
    by (auto simp: assign_def)
qed

lemma get_loop_spec:
  assumes "get_loop B gs results cur = Inr (results', cur')"
    and "\<forall>g \<in> set gs. get_plan_ok g"
    and "\<forall>(q, ns, items) \<in> set gs. \<forall>(idx, key) \<in> set items.
           (case lookup_row (cur_db cur) (namespace_to_text ns) key of
              Some row \<Rightarrow> RItem (row_to_item ns row) | None \<Rightarrow> RNone) = E idx"
  shows "length results' = length results
         \<and> cur_db cur' = cur_db cur
         \<and> dispatched cur' = dispatched cur @ map fst gs
         \<and> (\<forall>i<length results. results' ! i =
              (if i \<in> (\<Union>(q, ns, items) \<in> set gs. fst ` set items) then E i else results ! i))"
  using assms
proof (induction gs arbitrary: results cur)
  case Nil
  then show ?case by simp
next
  case (Cons g gs)
  obtain q ns items where g: "g = (q, ns, items)" by (cases g)
  from Cons.prems(2) g have q: "q = (SqlSelectKeys, [PStr (namespace_to_text ns), PStrs (map snd items)])"
    by (simp add: get_plan_ok_def)
  from Cons.prems(1) g obtain rows cur1 r1 where
    f: "fetch_items B cur q = Inr (rows, cur1)"
    and fi: "fill_items ns rows items results = Inr r1"
    and rest: "get_loop B gs r1 cur1 = Inr (results', cur')"
    by (auto split: sum.splits prod.splits)
  from f q have rows: "rows = select_rows (cur_db cur) (namespace_to_text ns) (map snd items)"
    and cur1: "cur_db cur1 = cur_db cur" "dispatched cur1 = dispatched cur @ [q]"
    by (auto simp: fetch_items_def dispatch_def split: if_splits)
  have vals: "\<forall>(idx, key) \<in> set items.
           (case key_to_row rows key of Some row \<Rightarrow> RItem (row_to_item ns row) | None \<Rightarrow> RNone)
           = E idx"
  proof (clarify)
    fix idx key
    assume m: "(idx, key) \<in> set items"
    then have "key \<in> set (map snd items)" by force
    then have "key_to_row rows key = lookup_row (cur_db cur) (namespace_to_text ns) key"
      unfolding rows by (rule key_to_row_select)
    with Cons.prems(3) g m show "(case key_to_row rows key of Some row \<Rightarrow> RItem (row_to_item ns row)
        | None \<Rightarrow> RNone) = E idx" by auto
  qed
  from fill_items_spec [OF fi vals]
  have r1: "length r1 = length results"
    "\<forall>i<length results. r1 ! i = (if i \<in> fst ` set items then E i else results ! i)"
    by simp_all
  have p2: "\<forall>g \<in> set gs. get_plan_ok g" using Cons.prems(2) by simp
  have p3: "\<forall>(q, ns, items) \<in> set gs. \<forall>(idx, key) \<in> set items.
           (case lookup_row (cur_db cur1) (namespace_to_text ns) key of
              Some row \<Rightarrow> RItem (row_to_item ns row) | None \<Rightarrow> RNone) = E idx"
    using Cons.prems(3) cur1 by simp
  from Cons.IH [OF rest p2 p3] r1 cur1 g show ?case
    by auto
qed


lemma fill_items_length:
  "fill_items ns rows items results = Inr results' \<Longrightarrow> length results' = length results"
  by (induction items arbitrary: results) (auto simp: assign_def split: sum.splits if_splits)

lemma get_loop_total:
  assumes "\<forall>db q. \<not> fails B db q"
    and "\<forall>g \<in> set gs. get_plan_ok g"
    and "\<forall>(q, ns, items) \<in> set gs. \<forall>(idx, key) \<in> set items. idx < length results"
  shows "\<exists>r. get_loop B gs results cur = Inr r"
  using assms(2,3)
proof (induction gs arbitrary: results cur)
  case Nil
  then show ?case by simp
next
  case (Cons g gs)
  obtain q ns items where g: "g = (q, ns, items)" by (cases g)
  from Cons.prems(1) g have q: "q = (SqlSelectKeys, [PStr (namespace_to_text ns), PStrs (map snd items)])"
    by (simp add: get_plan_ok_def)
  obtain rows cur1 where f: "fetch_items B cur q = Inr (rows, cur1)"
    using assms(1) q by (simp add: fetch_items_def)
  from Cons.prems(2) g have "\<forall>(idx, key) \<in> set items. idx < length results" by simp
  from fill_items_total [OF this] obtain r1 where
    fi: "fill_items ns rows items results = Inr r1" by blast
  have len: "length r1 = length results"
    using fill_items_length [OF fi] .
  have "\<forall>g \<in> set gs. get_plan_ok g" using Cons.prems(1) by simp
  moreover have "\<forall>(q, ns, items) \<in> set gs. \<forall>(idx, key) \<in> set items. idx < length r1"
    using Cons.prems(2) len by simp
  ultimately obtain r where "get_loop B gs r1 cur1 = Inr r"
    using Cons.IH by blast
  with f fi g show ?case by simp
qed

lemma search_loop_spec:
  assumes "search_loop B zs results cur = Inr (results', cur')"
    and "\<forall>((idx, op), q) \<in> set zs.
           RSearchItems (map (\<lambda>row. row_to_search_item (decode_ns_bytes (row_prefix row)) row)
                           (search_rows B (cur_db cur) q)) = E idx"
  shows "length results' = length results
         \<and> cur_db cur' = cur_db cur
         \<and> dispatched cur' = dispatched cur @ map snd zs
         \<and> (\<forall>i<length results. results' ! i =
              (if i \<in> (fst \<circ> fst) ` set zs then E i else results ! i))"
  using assms
proof (induction zs arbitrary: results cur)
  case Nil
  then show ?case by simp
next
  case (Cons z zs)
  obtain idx op q where z: "z = ((idx, op), q)" by (cases z) auto
  from Cons.prems(1) z obtain rows cur1 r1 where
    f: "fetch_search B cur q = Inr (rows, cur1)"
    and a: "assign results idx
             (RSearchItems (map (\<lambda>row. row_to_search_item (decode_ns_bytes (row_prefix row)) row)
                rows)) = Inr r1"
    and rest: "search_loop B zs r1 cur1 = Inr (results', cur')"
    by (auto split: sum.splits prod.splits)
  from f have rows: "rows = search_rows B (cur_db cur) q"
    and cur1: "cur_db cur1 = cur_db cur" "dispatched cur1 = dispatched cur @ [q]"
    by (auto simp: fetch_search_def dispatch_def split: if_splits)
  from Cons.prems(2) z rows have e: "RSearchItems
      (map (\<lambda>row. row_to_search_item (decode_ns_bytes (row_prefix row)) row) rows) = E idx"
    by simp
  from a e have r1: "idx < length results" "r1 = results[idx := E idx]"
    by (simp_all add: assign_Inr)
  have p2: "\<forall>((idx, op), q) \<in> set zs.
           RSearchItems (map (\<lambda>row. row_to_search_item (decode_ns_bytes (row_prefix row)) row)
                           (search_rows B (cur_db cur1) q)) = E idx"
    using Cons.prems(2) cur1 by simp
  from Cons.IH [OF rest p2] r1 cur1 z show ?case
    by (auto simp: nth_list_update)
qed

lemma search_loop_total:
  assumes "\<forall>db q. \<not> fails B db q"
    and "\<forall>((idx, op), q) \<in> set zs. idx < length results"
  shows "\<exists>r. search_loop B zs results cur = Inr r"
  using assms(2)
proof (induction zs arbitrary: results cur)
  case Nil
  then show ?case by simp
next
  case (Cons z zs)
  obtain idx op q where z: "z = ((idx, op), q)" by (cases z) auto
  let ?v = "RSearchItems (map (\<lambda>row. row_to_search_item (decode_ns_bytes (row_prefix row)) row)
                (search_rows B (cur_db cur) q))"
  from Cons.prems z have "\<forall>((i, op'), q') \<in> set zs. i < length (results[idx := ?v])" by auto
  moreover have "\<not> fails B (cur_db cur) q" using assms(1) by blast
  ultimately show ?case
    using Cons.IH [of "results[idx := ?v]" "dispatch cur q"] Cons.prems z
    by (auto simp: fetch_search_def assign_def)
qed

lemma list_loop_spec:
  assumes "list_loop B zs results cur = Inr (results', cur')"
    and "\<forall>(q, (idx, op)) \<in> set zs.
           RNamespaces (map decode_ns_bytes (namespace_rows B (cur_db cur) q)) = E idx"
  shows "length results' = length results
         \<and> cur_db cur' = cur_db cur
         \<and> dispatched cur' = dispatched cur @ map fst zs
         \<and> (\<forall>i<length results. results' ! i =
              (if i \<in> (fst \<circ> snd) ` set zs then E i else results ! i))"
  using assms
proof (induction zs arbitrary: results cur)
  case Nil
  then show ?case by simp
next
  case (Cons z zs)
  obtain idx op q where z: "z = (q, (idx, op))" by (cases z) auto
  from Cons.prems(1) z obtain rows cur1 r1 where
    f: "fetch_namespaces B cur q = Inr (rows, cur1)"
    and a: "assign results idx (RNamespaces (map decode_ns_bytes rows)) = Inr r1"
    and rest: "list_loop B zs r1 cur1 = Inr (results', cur')"
    by (auto split: sum.splits prod.splits)
  from f have rows: "rows = namespace_rows B (cur_db cur) q"
    and cur1: "cur_db cur1 = cur_db cur" "dispatched cur1 = dispatched cur @ [q]"
    by (auto simp: fetch_namespaces_def dispatch_def split: if_splits)
  from Cons.prems(2) z rows have e: "RNamespaces (map decode_ns_bytes rows) = E idx"
    by simp
  from a e have r1: "idx < length results" "r1 = results[idx := E idx]"
    by (simp_all add: assign_Inr)
  have p2: "\<forall>(q, (idx, op)) \<in> set zs.
           RNamespaces (map decode_ns_bytes (namespace_rows B (cur_db cur1) q)) = E idx"
    using Cons.prems(2) cur1 by simp
  from Cons.IH [OF rest p2] r1 cur1 z show ?case
    by (auto simp: nth_list_update)
qed

lemma list_loop_total:
  assumes "\<forall>db q. \<not> fails B db q"
    and "\<forall>(q, (idx, op)) \<in> set zs. idx < length results"
  shows "\<exists>r. list_loop B zs results cur = Inr r"
  using assms(2)
proof (induction zs arbitrary: results cur)
  case Nil
  then show ?case by simp
next
  case (Cons z zs)
  obtain idx op q where z: "z = (q, (idx, op))" by (cases z) auto
  let ?v = "RNamespaces (map decode_ns_bytes (namespace_rows B (cur_db cur) q))"
  from Cons.prems z have "\<forall>(q', (i, op')) \<in> set zs. i < length (results[idx := ?v])" by auto
  moreover have "\<not> fails B (cur_db cur) q" using assms(1) by blast
  ultimately show ?case
    using Cons.IH [of "results[idx := ?v]" "dispatch cur q"] Cons.prems z
    by (auto simp: fetch_namespaces_def assign_def)
qed

lemma write_loop_spec:
  "write_loop B qs cur = Inr cur' \<Longrightarrow> dispatched cur' = dispatched cur @ qs"
proof (induction qs arbitrary: cur)
  case Nil
  then show ?case by simp
next
  case (Cons q qs)
  from Cons.prems obtain cur1 where
    w: "execute_write B cur q = Inr cur1" and rest: "write_loop B qs cur1 = Inr cur'"
    by (auto split: sum.splits)
  from w have "dispatched cur1 = dispatched cur @ [q]"
    by (auto simp: execute_write_def dispatch_def split: if_splits)
  with Cons.IH [OF rest] show ?case by simp
qed

lemma write_loop_total:
  assumes "\<forall>db q. \<not> fails B db q"
  shows "\<exists>cur'. write_loop B qs cur = Inr cur'"
  using assms by (induction qs arbitrary: cur) (auto simp: execute_write_def)


lemma get_plan_ok_queries: "\<forall>g \<in> set (get_batch_GET_ops_queries get_ops). get_plan_ok g"
  by (auto simp: get_batch_GET_ops_queries_def get_plan_ok_def Let_def)

lemma get_items_set:
  "set (map (\<lambda>(idx, (_, key)). (idx, key)) (filter (\<lambda>(_, (ns', _)). ns' = ns) get_ops))
   = {(idx, key). (idx, (ns, key)) \<in> set get_ops}"
proof (rule set_eqI, rule iffI)
  fix p
  assume "p \<in> set (map (\<lambda>(idx, (_, key)). (idx, key))
                    (filter (\<lambda>(_, (ns', _)). ns' = ns) get_ops))"
  then obtain g where g: "g \<in> set get_ops" "(case g of (_, (ns', _)) \<Rightarrow> ns' = ns)"
    "p = (case g of (idx, (_, key)) \<Rightarrow> (idx, key))" by auto
  obtain idx ns' key where "g = (idx, (ns', key))" by (cases g) auto
  with g show "p \<in> {(idx, key). (idx, (ns, key)) \<in> set get_ops}" by auto
next
  fix p
  assume "p \<in> {(idx, key). (idx, (ns, key)) \<in> set get_ops}"
  then obtain idx key where p: "p = (idx, key)" "(idx, (ns, key)) \<in> set get_ops" by auto
  then have "(idx, (ns, key)) \<in> set (filter (\<lambda>(_, (ns', _)). ns' = ns) get_ops)" by simp
  then have "(\<lambda>(idx, (_, key)). (idx, key)) (idx, (ns, key))
             \<in> set (map (\<lambda>(idx, (_, key)). (idx, key))
                      (filter (\<lambda>(_, (ns', _)). ns' = ns) get_ops))"
    unfolding set_map by (rule imageI)
  with p show "p \<in> set (map (\<lambda>(idx, (_, key)). (idx, key))
                    (filter (\<lambda>(_, (ns', _)). ns' = ns) get_ops))" by simp
qed

lemma get_plan_items:
  assumes "(q, ns, items) \<in> set (get_batch_GET_ops_queries get_ops)"
  shows "(idx, key) \<in> set items \<longleftrightarrow> (idx, (ns, key)) \<in> set get_ops"
proof -
  from assms have "items = map (\<lambda>(idx, (_, key)). (idx, key))
                       (filter (\<lambda>(_, (ns', _)). ns' = ns) get_ops)"
    by (auto simp: get_batch_GET_ops_queries_def Let_def)
  then show ?thesis by (simp only: get_items_set) simp
qed

lemma get_plan_indices:
  fixes plan :: "(('v, 'vec) statement \<times> namespace \<times> (nat \<times> string) list) list"
  assumes plan: "plan = get_batch_GET_ops_queries get_ops"
  shows "(\<Union>(q, ns, items) \<in> set plan. fst ` set items) = fst ` set get_ops"
proof (rule set_eqI, rule iffI)
  fix i
  assume "i \<in> (\<Union>(q, ns, items) \<in> set plan. fst ` set items)"
  then have "\<exists>g \<in> set plan. i \<in> (case g of (q, ns, items) \<Rightarrow> fst ` set items)"
    by (simp only: UN_iff)
  then obtain g where g: "g \<in> set plan"
    "i \<in> (case g of (q, ns, items) \<Rightarrow> fst ` set items)" by blast
  obtain q ns items where "g = (q, ns, items)" by (cases g)
  with g obtain key where "(q, ns, items) \<in> set plan" "(i, key) \<in> set items"
    by auto
  then have "(i, (ns, key)) \<in> set get_ops" by (simp add: get_plan_items plan)
  then show "i \<in> fst ` set get_ops" by force
next
  fix i
  assume "i \<in> fst ` set get_ops"
  then obtain ns key where m: "(i, (ns, key)) \<in> set get_ops" by auto
  let ?items = "map (\<lambda>(idx, (_, key)). (idx, key)) (filter (\<lambda>(_, (ns', _)). ns' = ns) get_ops)"
  let ?q = "(SqlSelectKeys, [PStr (namespace_to_text ns), PStrs (map snd ?items)])
              :: ('v, 'vec) statement"
  from m have "ns \<in> set (map (\<lambda>(_, (ns, _)). ns) get_ops)" by force
  then have "(?q, ns, ?items) \<in> set plan"
    by (auto simp: plan get_batch_GET_ops_queries_def Let_def)
  moreover from m have "(i, key) \<in> set ?items" by (simp only: get_items_set) simp
  ultimately have "\<exists>g \<in> set plan. i \<in> (case g of (q, ns, items) \<Rightarrow> fst ` set items)"
    by force
  then show "i \<in> (\<Union>(q, ns, items) \<in> set plan. fst ` set items)"
    by (simp only: UN_iff)
qed

lemma search_statement_no_embedder:
  "embeddings st = None \<Longrightarrow> search_statement st op = search_query st op"
  by (cases op) (auto simp: search_statement_def split: option.splits)

lemma splice_loop_plan:
  assumes "embeddings st = Some emb"
  shows "splice_loop
           (zip (search_embedding_requests st (length pre) sops)
                (aembed_documents emb (map snd (search_embedding_requests st (length pre) sops))))
           (pre @ map (\<lambda>(_, op). search_query st op) sops)
         = Inr (pre @ map (\<lambda>(_, op). search_statement st op) sops)"
proof (induction sops arbitrary: pre)
  case Nil
  then show ?case by (simp add: aembed_documents_def)
next
  case (Cons sop sops)
  obtain i ns f lim off q where sop: "sop = (i, (ns, f, lim, off, q))" by (cases sop) auto
  show ?case
  proof (cases "q \<noteq> None")
    case True
    then obtain t where q: "q = Some t" by auto
    have ss: "search_statement st (ns, f, lim, off, q)
              = (SqlSearchVector, [PVector (emb t), PStr (namespace_to_text ns),
                   filter_param f, PInt lim, PInt off])"
      using q assms by (simp add: search_statement_def)
    have sq: "search_query st (ns, f, lim, off, q)
              = (SqlSearchVector, [PNone, PStr (namespace_to_text ns),
                   filter_param f, PInt lim, PInt off])"
      using q assms by (simp add: search_query_def)
    have sp: "splice_vector (pre @ search_query st (ns, f, lim, off, q)
                # map (\<lambda>(_, op). search_query st op) sops) (length pre) (emb t)
              = Inr ((pre @ [search_statement st (ns, f, lim, off, q)])
                     @ map (\<lambda>(_, op). search_query st op) sops)"
      by (simp add: splice_vector_def ss sq nth_append list_update_append)
    from Cons.IH [of "pre @ [search_statement st (ns, f, lim, off, q)]"] sp q sop assms
    show ?thesis by (simp add: aembed_documents_def)
  next
    case False
    then have ss: "search_statement st (ns, f, lim, off, q) = search_query st (ns, f, lim, off, q)"
      by (auto simp: search_statement_def split: option.splits)
    from False have rq: "search_embedding_requests st (length pre) (sop # sops)
          = search_embedding_requests st (Suc (length pre)) sops"
      by (auto simp: sop split: option.splits)
    from Cons.IH [of "pre @ [search_query st (ns, f, lim, off, q)]"] ss rq sop
    show ?thesis by simp
  qed
qed

lemma search_requests_empty:
  "search_embedding_requests st i sops = [] \<Longrightarrow>
   map (\<lambda>(_, op). search_statement st op) sops = map (\<lambda>(_, op). search_query st op) sops"
proof (induction sops arbitrary: i)
  case Nil
  then show ?case by simp
next
  case (Cons sop sops)
  obtain j ns f lim off q where sop: "sop = (j, (ns, f, lim, off, q))" by (cases sop) auto
  from Cons.prems sop have nq: "\<not> (q \<noteq> None \<and> embeddings st \<noteq> None)"
    and rest: "search_embedding_requests st (Suc i) sops = []"
    by (auto split: option.splits if_splits)
  from nq have "search_statement st (ns, f, lim, off, q) = search_query st (ns, f, lim, off, q)"
    by (auto simp: search_statement_def split: option.splits)
  with Cons.IH [OF rest] sop show ?case by simp
qed

lemma batch_search_ops_eq:
  "batch_search_ops B st sops results cur
   = search_loop B (zip sops (map (\<lambda>(_, op). search_statement st op) sops)) results cur"
proof (cases "embeddings st")
  case None
  have eq: "map (\<lambda>(_, op). search_statement st op) sops = map (\<lambda>(_, op). search_query st op) sops"
    using None by (auto simp: search_statement_no_embedder)
  show ?thesis
    unfolding eq using None
    by (simp add: batch_search_ops_def batch_search_plan_def prepare_batch_search_queries_def)
next
  case (Some emb)
  show ?thesis
  proof (cases "search_embedding_requests st 0 sops = []")
    case True
    show ?thesis
      unfolding search_requests_empty [OF True] using Some True
      by (simp add: batch_search_ops_def batch_search_plan_def prepare_batch_search_queries_def)
  next
    case False
    from splice_loop_plan [OF Some, of "[]" sops] Some False show ?thesis
      by (simp add: batch_search_ops_def batch_search_plan_def prepare_batch_search_queries_def)
  qed
qed


lemma zip_map_right: "zip xs (map f xs) = map (\<lambda>x. (x, f x)) xs"
  by (induction xs) auto

lemma zip_map_left: "zip (map f xs) xs = map (\<lambda>x. (f x, x)) xs"
  by (induction xs) auto

lemma group_key_case:
  "f [] = d \<Longrightarrow> (case group_key g of Some xs \<Rightarrow> f xs | None \<Rightarrow> d) = f g"
  by (simp add: group_key_def)

lemma batch_get_ops_Nil: "batch_get_ops B [] results cur = Inr (results, cur)"
  by (simp add: batch_get_ops_def get_batch_GET_ops_queries_def)

lemma batch_search_ops_Nil: "batch_search_ops B st [] results cur = Inr (results, cur)"
  by (simp add: batch_search_ops_eq)

lemma batch_list_namespaces_ops_Nil:
  "batch_list_namespaces_ops B [] results cur = Inr (results, cur)"
  by (simp add: batch_list_namespaces_ops_def get_batch_list_namespaces_queries_def)

lemma batch_put_ops_Nil: "batch_put_ops B st [] cur = Inr cur"
  by (simp add: batch_put_ops_def prepare_batch_PUT_queries_def batch_put_plan_def
      delete_queries_def insert_queries_def put_embedding_request_def split: option.splits)

lemma execute_batch_grouped:
  "execute_batch B st (fst (group_ops ops)) results cur =
     (case batch_get_ops B (get_ops_of 0 ops) results cur of
        Inl e \<Rightarrow> Inl e
      | Inr (results1, cur1) \<Rightarrow>
     (case batch_search_ops B st (search_ops_of 0 ops) results1 cur1 of
        Inl e \<Rightarrow> Inl e
      | Inr (results2, cur2) \<Rightarrow>
     (case batch_list_namespaces_ops B (list_ops_of 0 ops) results2 cur2 of
        Inl e \<Rightarrow> Inl e
      | Inr (results3, cur3) \<Rightarrow>
     (case batch_put_ops B st (put_ops_of 0 ops) cur3 of
        Inl e \<Rightarrow> Inl e
      | Inr cur4 \<Rightarrow> Inr (results3, cur4)))))"
proof -
  have g: "(case group_key (get_ops_of 0 ops) of
              Some get_ops \<Rightarrow> batch_get_ops B get_ops r c | None \<Rightarrow> Inr (r, c))
           = batch_get_ops B (get_ops_of 0 ops) r c" for r c
    by (rule group_key_case) (rule batch_get_ops_Nil)
  have s: "(case group_key (search_ops_of 0 ops) of
              Some search_ops \<Rightarrow> batch_search_ops B st search_ops r c | None \<Rightarrow> Inr (r, c))
           = batch_search_ops B st (search_ops_of 0 ops) r c" for r c
    by (rule group_key_case) (rule batch_search_ops_Nil)
  have l: "(case group_key (list_ops_of 0 ops) of
              Some list_ops \<Rightarrow> batch_list_namespaces_ops B list_ops r c | None \<Rightarrow> Inr (r, c))
           = batch_list_namespaces_ops B (list_ops_of 0 ops) r c" for r c
    by (rule group_key_case) (rule batch_list_namespaces_ops_Nil)
  have p: "(case group_key (put_ops_of 0 ops) of
              Some put_ops \<Rightarrow> (case batch_put_ops B st put_ops c of
                                Inl e \<Rightarrow> Inl e | Inr cur4 \<Rightarrow> Inr (r, cur4))
            | None \<Rightarrow> Inr (r, c))
           = (case batch_put_ops B st (put_ops_of 0 ops) c of
                Inl e \<Rightarrow> Inl e | Inr cur4 \<Rightarrow> Inr (r, cur4))" for r c
    by (rule group_key_case) (simp add: batch_put_ops_Nil)
  show ?thesis
    by (simp add: execute_batch_def group_ops_def g s l p split: sum.splits prod.splits)
qed

lemma batch_get_ops_spec:
  assumes ok: "batch_get_ops B (get_ops_of 0 ops) results cur = Inr (results', cur')"
  shows "length results' = length results
         \<and> cur_db cur' = cur_db cur
         \<and> dispatched cur' = dispatched cur @ map fst (get_batch_GET_ops_queries (get_ops_of 0 ops))
         \<and> (\<forall>i<length results. results' ! i =
              (if i \<in> fst ` set (get_ops_of 0 ops)
               then reply B st (cur_db cur) (ops ! i) else results ! i))"
proof -
  define plan :: "(('a, 'd) statement \<times> namespace \<times> (nat \<times> string) list) list"
    where "plan = get_batch_GET_ops_queries (get_ops_of 0 ops)"
  have run: "get_loop B plan results cur = Inr (results', cur')"
    using ok by (simp add: batch_get_ops_def plan_def)
  have vals: "\<forall>(q, ns, items) \<in> set plan. \<forall>(idx, key) \<in> set items.
           (case lookup_row (cur_db cur) (namespace_to_text ns) key of
              Some row \<Rightarrow> RItem (row_to_item ns row) | None \<Rightarrow> RNone)
           = reply B st (cur_db cur) (ops ! idx)"
  proof (clarify)
    fix q1 q2 ns items idx key
    assume "((q1, q2), ns, items) \<in> set plan" "(idx, key) \<in> set items"
    then have "(idx, (ns, key)) \<in> set (get_ops_of 0 ops)"
      by (simp add: plan_def get_plan_items)
    then have "ops ! idx = GetOp ns key" by (simp add: get_ops_of_iff)
    then show "(case lookup_row (cur_db cur) (namespace_to_text ns) key of
        Some row \<Rightarrow> RItem (row_to_item ns row) | None \<Rightarrow> RNone)
        = reply B st (cur_db cur) (ops ! idx)" by simp
  qed
  have pk: "\<forall>g \<in> set plan. get_plan_ok g"
    by (simp add: plan_def get_plan_ok_queries)
  have idx: "(\<Union>(q, ns, items) \<in> set plan. fst ` set items) = fst ` set (get_ops_of 0 ops)"
    by (rule get_plan_indices [OF plan_def])
  note step = get_loop_spec [OF run pk vals, unfolded idx]
  show ?thesis
    using step unfolding plan_def .
qed


lemma batch_search_ops_spec:
  assumes ok: "batch_search_ops B st (search_ops_of 0 ops) results cur = Inr (results', cur')"
  shows "length results' = length results
         \<and> cur_db cur' = cur_db cur
         \<and> dispatched cur' =
             dispatched cur @ map (\<lambda>(_, op). search_statement st op) (search_ops_of 0 ops)
         \<and> (\<forall>i<length results. results' ! i =
              (if i \<in> fst ` set (search_ops_of 0 ops)
               then reply B st (cur_db cur) (ops ! i) else results ! i))"
proof -
  define S where "S = search_ops_of 0 ops"
  define zs where "zs = map (\<lambda>x. (x, (case x of (_, op) \<Rightarrow> search_statement st op))) S"
  have run: "search_loop B zs results cur = Inr (results', cur')"
    using ok by (simp add: batch_search_ops_eq zs_def S_def zip_map_right)
  have vals: "\<forall>((idx, op), q) \<in> set zs.
           RSearchItems (map (\<lambda>row. row_to_search_item (decode_ns_bytes (row_prefix row)) row)
                           (search_rows B (cur_db cur) q))
           = reply B st (cur_db cur) (ops ! idx)"
  proof (clarify)
    fix idx ns f lim off qq q1 q2
    assume "((idx, (ns, f, lim, off, qq)), (q1, q2)) \<in> set zs"
    then have m: "(idx, (ns, f, lim, off, qq)) \<in> set S"
      and q: "(q1, q2) = search_statement st (ns, f, lim, off, qq)"
      by (auto simp: zs_def)
    from m have "ops ! idx = SearchOp ns f lim off qq"
      by (simp add: S_def search_ops_of_iff)
    with q show "RSearchItems
        (map (\<lambda>row. row_to_search_item (decode_ns_bytes (row_prefix row)) row)
           (search_rows B (cur_db cur) (q1, q2)))
        = reply B st (cur_db cur) (ops ! idx)" by simp
  qed
  have idx: "(fst \<circ> fst) ` set zs = fst ` set S"
    by (force simp: zs_def)
  have qs: "map snd zs = map (\<lambda>(_, op). search_statement st op) S"
    by (simp add: zs_def o_def)
  note step = search_loop_spec [OF run vals, unfolded idx qs]
  show ?thesis
    using step unfolding S_def .
qed

lemma batch_list_namespaces_ops_spec:
  assumes ok: "batch_list_namespaces_ops B (list_ops_of 0 ops) results cur = Inr (results', cur')"
  shows "length results' = length results
         \<and> cur_db cur' = cur_db cur
         \<and> dispatched cur' =
             dispatched cur @ get_batch_list_namespaces_queries (list_ops_of 0 ops)
         \<and> (\<forall>i<length results. results' ! i =
              (if i \<in> fst ` set (list_ops_of 0 ops)
               then reply B st (cur_db cur) (ops ! i) else results ! i))"
proof -
  define L where "L = list_ops_of 0 ops"
  define zs :: "(('a, 'd) statement \<times> (nat \<times> list_op)) list"
    where "zs = map (\<lambda>x. ((case x of (_, op) \<Rightarrow> list_namespaces_query op), x)) L"
  have run: "list_loop B zs results cur = Inr (results', cur')"
    using ok by (simp add: batch_list_namespaces_ops_def get_batch_list_namespaces_queries_def
        zs_def L_def zip_map_left)
  have vals: "\<forall>(q, (idx, op)) \<in> set zs.
           RNamespaces (map decode_ns_bytes (namespace_rows B (cur_db cur) q))
           = reply B st (cur_db cur) (ops ! idx)"
  proof (clarify)
    fix idx mc d lim off q1 q2
    assume "((q1, q2), (idx, (mc, d, lim, off))) \<in> set zs"
    then have m: "(idx, (mc, d, lim, off)) \<in> set L"
      and q: "(q1, q2) = list_namespaces_query (mc, d, lim, off)"
      by (auto simp: zs_def)
    from m have "ops ! idx = ListNamespacesOp mc d lim off"
      by (simp add: L_def list_ops_of_iff)
    with q show "RNamespaces (map decode_ns_bytes (namespace_rows B (cur_db cur) (q1, q2)))
        = reply B st (cur_db cur) (ops ! idx)" by simp
  qed
  have idx: "(fst \<circ> snd) ` set zs = fst ` set L"
    by (force simp: zs_def)
  have qs: "map fst zs = get_batch_list_namespaces_queries L"
    by (simp add: zs_def o_def get_batch_list_namespaces_queries_def)
  note step = list_loop_spec [OF run vals, unfolded idx qs]
  show ?thesis
    using step unfolding L_def .
qed

lemma put_plan_kinds:
  "\<forall>q \<in> set (fst (prepare_batch_PUT_queries B st put_ops)). kind_of_sql (fst q) = KPut"
  by (auto simp: prepare_batch_PUT_queries_def Let_def delete_queries_def insert_queries_def)

lemma put_request_sql:
  "snd (prepare_batch_PUT_queries B st put_ops) = Some (query, tp) \<Longrightarrow> query = SqlUpsertVectors"
  by (auto simp: prepare_batch_PUT_queries_def Let_def put_embedding_request_def
      split: option.splits if_splits)

lemma batch_put_ops_spec:
  assumes ok: "batch_put_ops B st put_ops cur = Inr cur'"
  shows "\<exists>qs. dispatched cur' = dispatched cur @ qs
              \<and> (\<forall>q \<in> set qs. kind_of_sql (fst q) = KPut)"
proof -
  obtain queries req where plan: "prepare_batch_PUT_queries B st put_ops = (queries, req)"
    by (cases "prepare_batch_PUT_queries B st put_ops")
  have kinds: "\<forall>q \<in> set queries. kind_of_sql (fst q) = KPut"
    using put_plan_kinds [of B st put_ops] plan by simp
  show ?thesis
  proof (cases req)
    case None
    with ok plan have "write_loop B queries cur = Inr cur'"
      by (simp add: batch_put_ops_def batch_put_plan_def)
    from write_loop_spec [OF this] kinds show ?thesis by blast
  next
    case (Some r)
    obtain query tp where r: "r = (query, tp)" by (cases r)
    with Some plan have sql: "query = SqlUpsertVectors"
      using put_request_sql [of B st put_ops query tp] by simp
    from ok plan Some r obtain emb ps where
      "write_loop B (queries @ [(query, ps)]) cur = Inr cur'"
      by (auto simp: batch_put_ops_def batch_put_plan_def split: option.splits)
    from write_loop_spec [OF this] kinds sql show ?thesis
      by (intro exI [of _ "queries @ [(query, ps)]"]) auto
  qed
qed


lemma get_indices:
  "i \<in> fst ` set (get_ops_of 0 ops) \<longleftrightarrow> i < length ops \<and> (\<exists>ns k. ops ! i = GetOp ns k)"
proof
  assume "i \<in> fst ` set (get_ops_of 0 ops)"
  then obtain ns k where "(i, (ns, k)) \<in> set (get_ops_of 0 ops)" by auto
  then show "i < length ops \<and> (\<exists>ns k. ops ! i = GetOp ns k)" by (auto simp: get_ops_of_iff)
next
  assume "i < length ops \<and> (\<exists>ns k. ops ! i = GetOp ns k)"
  then obtain ns k where "i < length ops" "ops ! i = GetOp ns k" by auto
  then have "(i, (ns, k)) \<in> set (get_ops_of 0 ops)" by (simp add: get_ops_of_iff)
  then show "i \<in> fst ` set (get_ops_of 0 ops)" by force
qed

lemma search_indices:
  "i \<in> fst ` set (search_ops_of 0 ops) \<longleftrightarrow>
     i < length ops \<and> (\<exists>ns f lim off q. ops ! i = SearchOp ns f lim off q)"
proof
  assume "i \<in> fst ` set (search_ops_of 0 ops)"
  then obtain ns f lim off q where "(i, (ns, f, lim, off, q)) \<in> set (search_ops_of 0 ops)"
    by auto
  then show "i < length ops \<and> (\<exists>ns f lim off q. ops ! i = SearchOp ns f lim off q)"
    by (auto simp: search_ops_of_iff)
next
  assume "i < length ops \<and> (\<exists>ns f lim off q. ops ! i = SearchOp ns f lim off q)"
  then obtain ns f lim off q where "i < length ops" "ops ! i = SearchOp ns f lim off q" by auto
  then have "(i, (ns, f, lim, off, q)) \<in> set (search_ops_of 0 ops)"
    by (simp add: search_ops_of_iff)
  then show "i \<in> fst ` set (search_ops_of 0 ops)" by force
qed

lemma list_indices:
  "i \<in> fst ` set (list_ops_of 0 ops) \<longleftrightarrow>
     i < length ops \<and> (\<exists>mc d lim off. ops ! i = ListNamespacesOp mc d lim off)"
proof
  assume "i \<in> fst ` set (list_ops_of 0 ops)"
  then obtain mc d lim off where "(i, (mc, d, lim, off)) \<in> set (list_ops_of 0 ops)"
    by auto
  then show "i < length ops \<and> (\<exists>mc d lim off. ops ! i = ListNamespacesOp mc d lim off)"
    by (auto simp: list_ops_of_iff)
next
  assume "i < length ops \<and> (\<exists>mc d lim off. ops ! i = ListNamespacesOp mc d lim off)"
  then obtain mc d lim off where "i < length ops" "ops ! i = ListNamespacesOp mc d lim off"
    by auto
  then have "(i, (mc, d, lim, off)) \<in> set (list_ops_of 0 ops)"
    by (simp add: list_ops_of_iff)
  then show "i \<in> fst ` set (list_ops_of 0 ops)" by force
qed

lemma abatch_steps:
  assumes ok: "abatch B st ops cur = Inr (res, cur')"
  obtains r1 c1 r2 c2 c3 where
    "batch_get_ops B (get_ops_of 0 ops) (replicate (length ops) RNone) cur = Inr (r1, c1)"
    "batch_search_ops B st (search_ops_of 0 ops) r1 c1 = Inr (r2, c2)"
    "batch_list_namespaces_ops B (list_ops_of 0 ops) r2 c2 = Inr (res, c3)"
    "batch_put_ops B st (put_ops_of 0 ops) c3 = Inr cur'"
proof -
  have "abatch B st ops cur
        = execute_batch B st (fst (group_ops ops)) (replicate (length ops) RNone) cur"
    by (simp add: abatch_def group_ops_def)
  with ok have "execute_batch B st (fst (group_ops ops)) (replicate (length ops) RNone) cur
                = Inr (res, cur')" by simp
  then show ?thesis
    unfolding execute_batch_grouped
    by (auto split: sum.splits prod.splits intro: that)
qed

lemma abatch_spec:
  assumes ok: "abatch B st ops cur = Inr (res, cur')"
  shows "length res = length ops"
    and "\<forall>i<length ops. res ! i = reply B st (cur_db cur) (ops ! i)"
    and "\<exists>P. dispatched cur' =
            dispatched cur
            @ map fst (get_batch_GET_ops_queries (get_ops_of 0 ops))
            @ map (\<lambda>(_, op). search_statement st op) (search_ops_of 0 ops)
            @ get_batch_list_namespaces_queries (list_ops_of 0 ops)
            @ P
          \<and> (\<forall>q \<in> set P. kind_of_sql (fst q) = KPut)"
proof -
  let ?E = "\<lambda>i. reply B st (cur_db cur) (ops ! i)"
  from ok obtain r1 c1 r2 c2 c3 where
    g: "batch_get_ops B (get_ops_of 0 ops) (replicate (length ops) RNone) cur = Inr (r1, c1)"
    and s: "batch_search_ops B st (search_ops_of 0 ops) r1 c1 = Inr (r2, c2)"
    and l: "batch_list_namespaces_ops B (list_ops_of 0 ops) r2 c2 = Inr (res, c3)"
    and p: "batch_put_ops B st (put_ops_of 0 ops) c3 = Inr cur'"
    by (rule abatch_steps)
  from batch_get_ops_spec [OF g, of st]
  have g1: "length r1 = length ops" and g2: "cur_db c1 = cur_db cur"
    and g3: "dispatched c1 = dispatched cur
               @ map fst (get_batch_GET_ops_queries (get_ops_of 0 ops))"
    and g4: "\<forall>i<length ops. r1 ! i =
              (if i \<in> fst ` set (get_ops_of 0 ops) then ?E i else RNone)"
    by simp_all
  from batch_search_ops_spec [OF s] g1 g2
  have s1: "length r2 = length ops" and s2: "cur_db c2 = cur_db cur"
    and s3: "dispatched c2 = dispatched c1
               @ map (\<lambda>(_, op). search_statement st op) (search_ops_of 0 ops)"
    and s4: "\<forall>i<length ops. r2 ! i =
              (if i \<in> fst ` set (search_ops_of 0 ops) then ?E i else r1 ! i)"
    by simp_all
  from batch_list_namespaces_ops_spec [OF l, of st] s1 s2
  have l1: "length res = length ops"
    and l3: "dispatched c3 = dispatched c2
               @ get_batch_list_namespaces_queries (list_ops_of 0 ops)"
    and l4: "\<forall>i<length ops. res ! i =
              (if i \<in> fst ` set (list_ops_of 0 ops) then ?E i else r2 ! i)"
    by simp_all
  show "length res = length ops" by (rule l1)
  show "\<forall>i<length ops. res ! i = ?E i"
  proof (intro allI impI)
    fix i
    assume i: "i < length ops"
    show "res ! i = ?E i"
    proof (cases "ops ! i")
      case (GetOp ns k)
      with i have "i \<in> fst ` set (get_ops_of 0 ops)" by (simp add: get_indices)
      with g4 s4 l4 i show ?thesis by simp
    next
      case (SearchOp ns f lim off q)
      with i have "i \<in> fst ` set (search_ops_of 0 ops)" by (simp add: search_indices)
      with s4 l4 i show ?thesis by simp
    next
      case (ListNamespacesOp mc d lim off)
      with i have "i \<in> fst ` set (list_ops_of 0 ops)" by (simp add: list_indices)
      with l4 i show ?thesis by simp
    next
      case (PutOp ns k v ix)
      then have "i \<notin> fst ` set (get_ops_of 0 ops)" "i \<notin> fst ` set (search_ops_of 0 ops)"
        "i \<notin> fst ` set (list_ops_of 0 ops)"
        by (simp_all add: get_indices search_indices list_indices)
      with g4 s4 l4 i PutOp show ?thesis by simp
    qed
  qed
  from batch_put_ops_spec [OF p] obtain P where
    "dispatched cur' = dispatched c3 @ P" "\<forall>q \<in> set P. kind_of_sql (fst q) = KPut" by blast
  with g3 s3 l3 show "\<exists>P. dispatched cur' =
            dispatched cur
            @ map fst (get_batch_GET_ops_queries (get_ops_of 0 ops))
            @ map (\<lambda>(_, op). search_statement st op) (search_ops_of 0 ops)
            @ get_batch_list_namespaces_queries (list_ops_of 0 ops)
            @ P
          \<and> (\<forall>q \<in> set P. kind_of_sql (fst q) = KPut)"
    by (intro exI [of _ P]) simp
qed

lemma reply_fits: "result_fits op (reply B st db op)"
  by (cases op) (auto split: option.splits)

lemma put_request_needs_config:
  "snd (prepare_batch_PUT_queries B st put_ops) = Some r \<Longrightarrow> index_config st \<noteq> None"
  by (auto simp: prepare_batch_PUT_queries_def Let_def put_embedding_request_def
      split: option.splits)

lemma batch_put_ops_total:
  assumes nf: "\<forall>db q. \<not> fails B db q"
    and emb: "index_config st \<noteq> None \<longrightarrow> embeddings st \<noteq> None"
  shows "\<exists>cur'. batch_put_ops B st put_ops cur = Inr cur'"
proof -
  obtain queries req where plan: "prepare_batch_PUT_queries B st put_ops = (queries, req)"
    by (cases "prepare_batch_PUT_queries B st put_ops")
  show ?thesis
  proof (cases req)
    case None
    with plan write_loop_total [OF nf, of queries cur] show ?thesis
      by (simp add: batch_put_ops_def batch_put_plan_def)
  next
    case (Some r)
    obtain query tp where r: "r = (query, tp)" by (cases r)
    from Some plan have "index_config st \<noteq> None"
      using put_request_needs_config [of B st put_ops r] by simp
    with emb obtain e where e: "embeddings st = Some e" by auto
    from write_loop_total [OF nf] obtain cur' where
      "write_loop B
         (queries @
          [(query,
            concat (map (\<lambda>((ns, k, pathname, _), vector).
                           [PStr ns, PStr k, PStr pathname, PVector vector])
                      (zip tp (aembed_documents e (map (\<lambda>(_, _, _, t). t) tp)))))])
         cur = Inr cur'" by blast
    with plan Some r e show ?thesis
      by (simp add: batch_put_ops_def batch_put_plan_def)
  qed
qed

lemma abatch_total:
  fixes B :: "('v, 'd, 's, 'vec, 'cfg, 'x) backend"
  assumes nf: "\<forall>db q. \<not> fails B db q"
    and emb: "index_config st \<noteq> None \<longrightarrow> embeddings st \<noteq> None"
  shows "\<exists>res cur'. abatch B st ops cur = Inr (res, cur')"
proof -
  let ?r0 = "replicate (length ops) RNone :: ('v, 'd, 's) result list"
  define plan :: "(('v, 'vec) statement \<times> namespace \<times> (nat \<times> string) list) list"
    where "plan = get_batch_GET_ops_queries (get_ops_of 0 ops)"
  have "\<forall>(q, ns, items) \<in> set plan. \<forall>(idx, key) \<in> set items. idx < length ?r0"
  proof (clarify)
    fix q1 q2 ns items idx key
    assume "((q1, q2), ns, items) \<in> set plan" "(idx, key) \<in> set items"
    then have "(idx, (ns, key)) \<in> set (get_ops_of 0 ops)"
      by (simp add: plan_def get_plan_items)
    then show "idx < length ?r0" by (simp add: get_ops_of_iff)
  qed
  from get_loop_total [OF nf _ this, of cur] obtain r1 c1 where
    g: "batch_get_ops B (get_ops_of 0 ops) ?r0 cur = Inr (r1, c1)"
    by (auto simp: batch_get_ops_def plan_def get_plan_ok_queries)
  from batch_get_ops_spec [OF g, of st] have len1: "length r1 = length ops" by simp
  have "\<forall>((idx, op), q) \<in> set (zip (search_ops_of 0 ops)
            (map (\<lambda>(_, op). search_statement st op) (search_ops_of 0 ops))). idx < length r1"
  proof (clarify)
    fix idx ns f lim off qq q1 q2
    assume "((idx, (ns, f, lim, off, qq)), (q1, q2)) \<in> set (zip (search_ops_of 0 ops)
            (map (\<lambda>(_, op). search_statement st op) (search_ops_of 0 ops)))"
    then have "(idx, (ns, f, lim, off, qq)) \<in> set (search_ops_of 0 ops)"
      by (rule set_zip_leftD)
    then show "idx < length r1" by (simp add: search_ops_of_iff len1)
  qed
  from search_loop_total [OF nf this, of c1] obtain r2 c2 where
    s: "batch_search_ops B st (search_ops_of 0 ops) r1 c1 = Inr (r2, c2)"
    by (auto simp: batch_search_ops_eq)
  from batch_search_ops_spec [OF s] len1 have len2: "length r2 = length ops" by simp
  have "\<forall>(q, (idx, op)) \<in> set (zip (get_batch_list_namespaces_queries (list_ops_of 0 ops)
            :: ('v, 'vec) statement list) (list_ops_of 0 ops)). idx < length r2"
  proof (clarify)
    fix idx mc d lim off q1 q2
    assume "((q1, q2), (idx, (mc, d, lim, off)))
      \<in> set (zip (get_batch_list_namespaces_queries (list_ops_of 0 ops)
            :: ('v, 'vec) statement list) (list_ops_of 0 ops))"
    then have "(idx, (mc, d, lim, off)) \<in> set (list_ops_of 0 ops)"
      by (rule set_zip_rightD)
    then show "idx < length r2" by (simp add: list_ops_of_iff len2)
  qed
  from list_loop_total [OF nf this, of c2] obtain r3 c3 where
    l: "batch_list_namespaces_ops B (list_ops_of 0 ops) r2 c2 = Inr (r3, c3)"
    by (auto simp: batch_list_namespaces_ops_def)
  from batch_put_ops_total [OF nf emb, of "put_ops_of 0 ops" c3] obtain c4 where
    p: "batch_put_ops B st (put_ops_of 0 ops) c3 = Inr c4" by blast
  have "abatch B st ops cur
        = execute_batch B st (fst (group_ops ops)) ?r0 cur"
    by (simp add: abatch_def group_ops_def)
  with g s l p show ?thesis
    by (simp add: execute_batch_grouped)
qed

text \<open>
  C1. Whenever \<^verbatim>\<open>abatch(ops)\<close> returns, the list it returns has one slot per
  operation, and the slot at each index holds the reply to the operation at that index:
  of the kind the operation calls for, and equal to what the operation alone gets from
  the database the batch started on, however the kinds are interleaved in the input. It
  does return when the server refuses no statement and a store with an index
  configuration has an embedder.
\<close>

theorem abatch_results_in_input_order:
  fixes B :: "('v, 'd, 's, 'vec, 'cfg, 'x) backend"
  shows
  "((\<forall>db q. \<not> fails B db q) \<and> (index_config st \<noteq> None \<longrightarrow> embeddings st \<noteq> None)
      \<longrightarrow> (\<exists>res cur'. abatch B st ops cur = Inr (res, cur')))
   \<and> (\<forall>res cur'. abatch B st ops cur = Inr (res, cur') \<longrightarrow>
        length res = length ops
        \<and> (\<forall>i<length ops. res ! i = reply B st (cur_db cur) (ops ! i)
                            \<and> result_fits (ops ! i) (res ! i)))"
proof (intro conjI impI allI)
  assume "(\<forall>db q. \<not> fails B db q) \<and> (index_config st \<noteq> None \<longrightarrow> embeddings st \<noteq> None)"
  then show "\<exists>res cur'. abatch B st ops cur = Inr (res, cur')"
    using abatch_total [of B st ops cur] by blast
next
  fix res cur'
  assume "abatch B st ops cur = Inr (res, cur')"
  then show "length res = length ops" by (rule abatch_spec(1))
next
  fix res cur' i
  assume ok: "abatch B st ops cur = Inr (res, cur')" and i: "i < length ops"
  from abatch_spec(2) [OF ok] i show r: "res ! i = reply B st (cur_db cur) (ops ! i)" by simp
  show "result_fits (ops ! i) (res ! i)" unfolding r by (rule reply_fits)
qed

lemma mixed_batch:
  "abatch (memory_server (7::nat) :: (string, nat, nat, nat, unit, unit) backend)
     \<lparr>embeddings = None, index_config = None\<rparr>
     [PutOp [''docs''] ''x'' None None,
      SearchOp [''docs''] None 10 0 None,
      GetOp [''docs'', ''u1''] ''r1'',
      ListNamespacesOp None None 100 0,
      GetOp [''docs''] ''absent'',
      PutOp [''docs'', ''u1''] ''r2'' (Some ''{n:5}'') None]
     \<lparr>cur_db = \<lparr>store_table =
         [\<lparr>row_prefix = ''docs.u1'', row_key = ''r1'', row_value = ''{n:0}'',
           row_created_at = 1, row_updated_at = 1\<rparr>,
          \<lparr>row_prefix = ''docs'', row_key = ''x'', row_value = ''{n:9}'',
           row_created_at = 2, row_updated_at = 3\<rparr>], other_tables = ()\<rparr>,
      dispatched = []\<rparr>
   = Inr ([RNone,
           RSearchItems
             [\<lparr>item_value = ''{n:0}'', item_key = ''r1'', item_namespace = [''docs'', ''u1''],
               created_at = 1, updated_at = 1, score = None\<rparr>,
              \<lparr>item_value = ''{n:9}'', item_key = ''x'', item_namespace = [''docs''],
               created_at = 2, updated_at = 3, score = None\<rparr>],
           RItem \<lparr>item_value = ''{n:0}'', item_key = ''r1'', item_namespace = [''docs'', ''u1''],
                  created_at = 1, updated_at = 1\<rparr>,
           RNamespaces [[''docs'', ''u1''], [''docs'']],
           RNone,
           RNone],
          \<lparr>cur_db = \<lparr>store_table =
              [\<lparr>row_prefix = ''docs.u1'', row_key = ''r1'', row_value = ''{n:0}'',
                row_created_at = 1, row_updated_at = 1\<rparr>,
               \<lparr>row_prefix = ''docs.u1'', row_key = ''r2'', row_value = ''{n:5}'',
                row_created_at = 7, row_updated_at = 7\<rparr>], other_tables = ()\<rparr>,
           dispatched = [(SqlSelectKeys, [PStr ''docs.u1'', PStrs [''r1'']]),
                         (SqlSelectKeys, [PStr ''docs'', PStrs [''absent'']]),
                         (SqlSearchScan, [PStr ''docs'', PNone, PInt 10, PInt 0]),
                         (SqlListNamespaces, [PNone, PNone, PInt 100, PInt 0]),
                         (SqlDeleteKeys, [PStr ''docs'', PStrs [''x'']]),
                         (SqlUpsertItems, [PStr ''docs.u1'', PStr ''r2'', PJson ''{n:5}''])]\<rparr>)"
  by code_simp

theorem abatch_results_in_input_order_witness:
  "(\<exists>res cur'.
      abatch (memory_server (7::nat) :: (string, nat, nat, nat, unit, unit) backend)
        \<lparr>embeddings = None, index_config = None\<rparr>
        [PutOp [''docs''] ''x'' None None,
         SearchOp [''docs''] None 10 0 None,
         GetOp [''docs'', ''u1''] ''r1'',
         ListNamespacesOp None None 100 0,
         GetOp [''docs''] ''absent'',
         PutOp [''docs'', ''u1''] ''r2'' (Some ''{n:5}'') None]
        \<lparr>cur_db = \<lparr>store_table =
            [\<lparr>row_prefix = ''docs.u1'', row_key = ''r1'', row_value = ''{n:0}'',
              row_created_at = 1, row_updated_at = 1\<rparr>,
             \<lparr>row_prefix = ''docs'', row_key = ''x'', row_value = ''{n:9}'',
              row_created_at = 2, row_updated_at = 3\<rparr>], other_tables = ()\<rparr>,
         dispatched = []\<rparr>
      = Inr (res, cur')
      \<and> length res = 6
      \<and> res ! 2 = RItem \<lparr>item_value = ''{n:0}'', item_key = ''r1'',
                         item_namespace = [''docs'', ''u1''], created_at = 1, updated_at = 1\<rparr>
      \<and> res ! 4 = RNone
      \<and> res ! 0 = RNone)"
proof -
  let ?B = "memory_server (7::nat) :: (string, nat, nat, nat, unit, unit) backend"
  let ?st = "\<lparr>embeddings = None, index_config = None\<rparr> :: (nat, unit) pg_store"
  let ?ops = "[PutOp [''docs''] ''x'' None None,
         SearchOp [''docs''] None 10 0 None,
         GetOp [''docs'', ''u1''] ''r1'',
         ListNamespacesOp None None 100 0,
         GetOp [''docs''] ''absent'',
         PutOp [''docs'', ''u1''] ''r2'' (Some ''{n:5}'') None] :: (namespace, string) op list"
  let ?cur = "\<lparr>cur_db = \<lparr>store_table =
            [\<lparr>row_prefix = ''docs.u1'', row_key = ''r1'', row_value = ''{n:0}'',
              row_created_at = (1::nat), row_updated_at = (1::nat)\<rparr>,
             \<lparr>row_prefix = ''docs'', row_key = ''x'', row_value = ''{n:9}'',
              row_created_at = 2, row_updated_at = 3\<rparr>], other_tables = ()\<rparr>,
         dispatched = [] :: (string, nat) statement list\<rparr>"
  have healthy: "(\<forall>db q. \<not> fails ?B db q) \<and> (index_config ?st \<noteq> None \<longrightarrow> embeddings ?st \<noteq> None)"
    by (simp add: memory_server_def)
  note th = abatch_results_in_input_order [of ?B ?st ?ops ?cur]
  from th [THEN conjunct1, rule_format, OF healthy] obtain res cur' where
    ok: "abatch ?B ?st ?ops ?cur = Inr (res :: (string, nat, nat) result list, cur')" by blast
  from th [THEN conjunct2, rule_format, OF ok]
  have len: "length res = length ?ops"
    and at: "\<And>i. i < length ?ops \<Longrightarrow> res ! i = reply ?B ?st (cur_db ?cur) (?ops ! i)"
    by simp_all
  have "length res = 6" using len by simp
  moreover have "res ! 2 = RItem \<lparr>item_value = ''{n:0}'', item_key = ''r1'',
                         item_namespace = [''docs'', ''u1''], created_at = 1, updated_at = 1\<rparr>"
    using at [of 2] by (simp add: lookup_row_def row_to_item_def)
  moreover have "res ! 4 = RNone"
    using at [of 4] by (simp add: lookup_row_def)
  moreover have "res ! 0 = RNone"
    using at [of 0] by simp
  ultimately show ?thesis using ok by blast
qed


text \<open>
  C2. The statements of a batch are dispatched by kind, in the order Get, Search,
  ListNamespaces, Put: every statement that writes comes after every statement that
  reads. So the slot of each Get and of each Search holds the reply from the database as
  it was before the batch, whatever Puts the batch holds and wherever they stand in it.
\<close>

theorem reads_dispatched_before_writes:
  fixes B :: "('v, 'd, 's, 'vec, 'cfg, 'x) backend"
  assumes ok: "abatch B st ops cur = Inr (res, cur')"
  shows
  "(\<exists>G S L P. dispatched cur' = dispatched cur @ G @ S @ L @ P
       \<and> (\<forall>q \<in> set G. kind_of_sql (fst q) = KGet)
       \<and> (\<forall>q \<in> set S. kind_of_sql (fst q) = KSearch)
       \<and> (\<forall>q \<in> set L. kind_of_sql (fst q) = KList)
       \<and> (\<forall>q \<in> set P. kind_of_sql (fst q) = KPut))
   \<and> (\<forall>i<length ops. \<forall>ns k. ops ! i = GetOp ns k \<longrightarrow>
         res ! i = (case lookup_row (cur_db cur) (namespace_to_text ns) k of
                      Some row \<Rightarrow> RItem (row_to_item ns row)
                    | None \<Rightarrow> RNone))
   \<and> (\<forall>i<length ops. \<forall>ns f lim off q. ops ! i = SearchOp ns f lim off q \<longrightarrow>
         res ! i = RSearchItems
                     (map (\<lambda>row. row_to_search_item (decode_ns_bytes (row_prefix row)) row)
                        (search_rows B (cur_db cur)
                           (search_statement st (ns, f, lim, off, q)))))"
proof (intro conjI allI impI)
  let ?G = "map fst (get_batch_GET_ops_queries (get_ops_of 0 ops)) :: ('v, 'vec) statement list"
  let ?S = "map (\<lambda>(_, op). search_statement st op) (search_ops_of 0 ops)
              :: ('v, 'vec) statement list"
  let ?L = "get_batch_list_namespaces_queries (list_ops_of 0 ops) :: ('v, 'vec) statement list"
  from abatch_spec(3) [OF ok] obtain P where
    d: "dispatched cur' = dispatched cur @ ?G @ ?S @ ?L @ P"
    and p: "\<forall>q \<in> set P. kind_of_sql (fst q) = KPut" by blast
  have g: "\<forall>q \<in> set ?G. kind_of_sql (fst q) = KGet"
    by (auto simp: get_batch_GET_ops_queries_def Let_def)
  have s: "\<forall>q \<in> set ?S. kind_of_sql (fst q) = KSearch"
    by (auto simp: search_statement_def search_query_def split: option.splits)
  have l: "\<forall>q \<in> set ?L. kind_of_sql (fst q) = KList"
    by (auto simp: get_batch_list_namespaces_queries_def list_namespaces_query_def)
  from d g s l p show "\<exists>G S L P. dispatched cur' = dispatched cur @ G @ S @ L @ P
       \<and> (\<forall>q \<in> set G. kind_of_sql (fst q) = KGet)
       \<and> (\<forall>q \<in> set S. kind_of_sql (fst q) = KSearch)
       \<and> (\<forall>q \<in> set L. kind_of_sql (fst q) = KList)
       \<and> (\<forall>q \<in> set P. kind_of_sql (fst q) = KPut)" by blast
next
  fix i ns k
  assume "i < length ops" "ops ! i = GetOp ns k"
  with abatch_spec(2) [OF ok]
  show "res ! i = (case lookup_row (cur_db cur) (namespace_to_text ns) k of
                      Some row \<Rightarrow> RItem (row_to_item ns row)
                    | None \<Rightarrow> RNone)" by simp
next
  fix i ns f lim off q
  assume "i < length ops" "ops ! i = SearchOp ns f lim off q"
  with abatch_spec(2) [OF ok]
  show "res ! i = RSearchItems
                     (map (\<lambda>row. row_to_search_item (decode_ns_bytes (row_prefix row)) row)
                        (search_rows B (cur_db cur)
                           (search_statement st (ns, f, lim, off, q))))" by simp
qed

lemma put_get_put_on_empty:
  "abatch (memory_server (7::nat) :: (string, nat, nat, nat, unit, unit) backend)
     \<lparr>embeddings = None, index_config = None\<rparr>
     [PutOp [''docs'', ''u1''] ''r1'' (Some ''{n:1}'') None,
      GetOp [''docs'', ''u1''] ''r1'',
      PutOp [''docs'', ''u1''] ''r1'' (Some ''{n:2}'') None]
     \<lparr>cur_db = \<lparr>store_table = [], other_tables = ()\<rparr>, dispatched = []\<rparr>
   = Inr ([RNone, RNone, RNone],
          \<lparr>cur_db = \<lparr>store_table =
              [\<lparr>row_prefix = ''docs.u1'', row_key = ''r1'', row_value = ''{n:2}'',
                row_created_at = 7, row_updated_at = 7\<rparr>], other_tables = ()\<rparr>,
           dispatched = [(SqlSelectKeys, [PStr ''docs.u1'', PStrs [''r1'']]),
                         (SqlUpsertItems, [PStr ''docs.u1'', PStr ''r1'', PJson ''{n:2}''])]\<rparr>)"
  by code_simp

theorem reads_dispatched_before_writes_witness:
  "abatch (memory_server (7::nat) :: (string, nat, nat, nat, unit, unit) backend)
     \<lparr>embeddings = None, index_config = None\<rparr>
     [PutOp [''docs'', ''u1''] ''r1'' (Some ''{n:1}'') None,
      GetOp [''docs'', ''u1''] ''r1'',
      PutOp [''docs'', ''u1''] ''r1'' (Some ''{n:2}'') None]
     \<lparr>cur_db = \<lparr>store_table =
         [\<lparr>row_prefix = ''docs.u1'', row_key = ''r1'', row_value = ''{n:0}'',
           row_created_at = 1, row_updated_at = 1\<rparr>], other_tables = ()\<rparr>,
      dispatched = []\<rparr>
   = Inr ([RNone,
           RItem \<lparr>item_value = ''{n:0}'', item_key = ''r1'', item_namespace = [''docs'', ''u1''],
                  created_at = 1, updated_at = 1\<rparr>,
           RNone],
          \<lparr>cur_db = \<lparr>store_table =
              [\<lparr>row_prefix = ''docs.u1'', row_key = ''r1'', row_value = ''{n:2}'',
                row_created_at = 1, row_updated_at = 7\<rparr>], other_tables = ()\<rparr>,
           dispatched = [(SqlSelectKeys, [PStr ''docs.u1'', PStrs [''r1'']]),
                         (SqlUpsertItems, [PStr ''docs.u1'', PStr ''r1'', PJson ''{n:2}''])]\<rparr>)
   \<and> [RNone,
       RItem \<lparr>item_value = ''{n:0}'', item_key = ''r1'', item_namespace = [''docs'', ''u1''],
              created_at = (1::nat), updated_at = (1::nat)\<rparr>,
       RNone :: (string, nat, nat) result] ! 1
     = (case lookup_row
               \<lparr>store_table =
                  [\<lparr>row_prefix = ''docs.u1'', row_key = ''r1'', row_value = ''{n:0}'',
                    row_created_at = 1, row_updated_at = 1\<rparr>], other_tables = ()\<rparr>
               (namespace_to_text [''docs'', ''u1'']) ''r1'' of
          Some row \<Rightarrow> RItem (row_to_item [''docs'', ''u1''] row)
        | None \<Rightarrow> RNone)"
proof -
  let ?B = "memory_server (7::nat) :: (string, nat, nat, nat, unit, unit) backend"
  let ?st = "\<lparr>embeddings = None, index_config = None\<rparr> :: (nat, unit) pg_store"
  let ?ops = "[PutOp [''docs'', ''u1''] ''r1'' (Some ''{n:1}'') None,
      GetOp [''docs'', ''u1''] ''r1'',
      PutOp [''docs'', ''u1''] ''r1'' (Some ''{n:2}'') None] :: (namespace, string) op list"
  let ?db = "\<lparr>store_table =
         [\<lparr>row_prefix = ''docs.u1'', row_key = ''r1'', row_value = ''{n:0}'',
           row_created_at = (1::nat), row_updated_at = (1::nat)\<rparr>], other_tables = ()\<rparr>"
  let ?cur = "\<lparr>cur_db = ?db, dispatched = [] :: (string, nat) statement list\<rparr>"
  let ?res = "[RNone,
           RItem \<lparr>item_value = ''{n:0}'', item_key = ''r1'', item_namespace = [''docs'', ''u1''],
                  created_at = (1::nat), updated_at = (1::nat)\<rparr>,
           RNone :: (string, nat, nat) result]"
  let ?cur' = "\<lparr>cur_db = \<lparr>store_table =
              [\<lparr>row_prefix = ''docs.u1'', row_key = ''r1'', row_value = ''{n:2}'',
                row_created_at = (1::nat), row_updated_at = (7::nat)\<rparr>], other_tables = ()\<rparr>,
           dispatched = [(SqlSelectKeys, [PStr ''docs.u1'', PStrs [''r1'']]),
                         (SqlUpsertItems, [PStr ''docs.u1'', PStr ''r1'', PJson ''{n:2}''])]
                        :: (string, nat) statement list\<rparr>"
  have ok: "abatch ?B ?st ?ops ?cur = Inr (?res, ?cur')"
    by code_simp
  have i: "1 < length ?ops" and g: "?ops ! 1 = GetOp [''docs'', ''u1''] ''r1''"
    by simp_all
  have slot: "?res ! 1 = (case lookup_row (cur_db ?cur) (namespace_to_text [''docs'', ''u1''])
                                ''r1'' of
                            Some row \<Rightarrow> RItem (row_to_item [''docs'', ''u1''] row)
                          | None \<Rightarrow> RNone)"
    by (rule reads_dispatched_before_writes [OF ok, THEN conjunct2, THEN conjunct1,
          rule_format, OF i g])
  have db: "cur_db ?cur = ?db" by simp
  from ok slot [unfolded db] show ?thesis by (rule conjI)
qed












end
